theory Spec2Isabelle
  imports Main
begin

section \<open>Row objects, tables and data views\<close>

text \<open>
  The rows of a \<^verbatim>\<open>reltab.TableRep\<close> are JavaScript objects. \<^verbatim>\<open>mkDataView\<close> writes
  into them, so they live in an explicit store: a row is referred to by its address, and
  \<^verbatim>\<open>tableData.rowData\<close> is a list of addresses. Every reference points to an object
  (the store is total); the Flow type of \<^verbatim>\<open>rowData\<close> excludes \<^verbatim>\<open>null\<close> entries.
\<close>

type_synonym addr = nat

text \<open>
  The value of the field \<^verbatim>\<open>_parentId\<close>: \<^verbatim>\<open>null\<close>, \<^verbatim>\<open>undefined\<close> (what reading a
  missing element of a JavaScript array gives) or the number of a row.
\<close>

datatype parent = NoParent | UndefinedParent | ParentId nat

text \<open>
  A row object. \<open>r_depth\<close> is the field \<^verbatim>\<open>_depth\<close>; \<open>r_path r i\<close> is the field
  whose name is \<^verbatim>\<open>'_path' + i\<close>, \<open>None\<close> when the object has no such field (or holds
  \<^verbatim>\<open>null\<close> there); \<open>r_data\<close> are the columns of the query itself. The four synthetic
  fields are \<open>None\<close> as long as the object does not have them.
\<close>

record row =
  r_depth :: int
  r_path :: "nat \<rightharpoonup> string"
  r_data :: "(string \<times> string) list"
  r_isOpen :: "bool option"
  r_isLeaf :: "bool option"
  r_id :: "nat option"
  r_parentId :: "parent option"

type_synonym heap = "addr \<Rightarrow> row"

text \<open>
  Modelled from the spec: \<^verbatim>\<open>reltab.Schema\<close> and its method \<^verbatim>\<open>extend\<close> are not in
  \<^verbatim>\<open>PivotRequester.js\<close>. A schema is the ordered list of its columns, each with its
  metadata (type and display name), and \<^verbatim>\<open>extend\<close> (here \<open>schema_extend\<close>, the name
  \<open>extend\<close> being taken by the records) adds one column at the end.
\<close>

type_synonym columnMetadata = "string \<times> string"
type_synonym schema = "(string \<times> columnMetadata) list"

definition schema_extend :: "schema \<Rightarrow> string \<Rightarrow> columnMetadata \<Rightarrow> schema" where
  "schema_extend s colId md = s @ [(colId, md)]"

record TableRep =
  td_schema :: schema
  td_rowData :: "addr list"

text \<open>\<^verbatim>\<open>new PagedDataView(schema, rowCount, offset, rowData)\<close> stores its four arguments.\<close>

record PagedDataView =
  pdv_schema :: schema
  pdv_rowCount :: int
  pdv_offset :: int
  pdv_rowData :: "addr list"

text \<open>
  A \<^verbatim>\<open>ViewParams\<close> object. \<open>vp_id\<close> is the identity of the object: the source compares
  view parameters with \<^verbatim>\<open>!==\<close>, so two objects with the same contents and different
  identities are different.
\<close>

record ViewParams =
  vp_id :: nat
  vpivots :: "string list"
  openPaths :: "string list set"

text \<open>
  Modelled from the spec: \<^verbatim>\<open>viewParams.openPaths.isOpen\<close> (the path tree of aggtree) is
  not in \<^verbatim>\<open>PivotRequester.js\<close>. The open paths are the set of expanded paths and
  \<^verbatim>\<open>isOpen\<close> is membership in it.
\<close>

definition isOpen :: "string list set \<Rightarrow> string list \<Rightarrow> bool" where
  "isOpen ps path = (path \<in> ps)"

section \<open>mkDataView\<close>

text \<open>
  The body of the loop of \<^verbatim>\<open>getPath\<close>: a path element is pushed when it is truthy, that
  is, a string that is not empty.
\<close>

definition getPath_body :: "row \<Rightarrow> nat \<Rightarrow> string list \<Rightarrow> string list" where
  "getPath_body rowMap i path =
     (case r_path rowMap i of
        None \<Rightarrow> path
      | Some pathElem \<Rightarrow> if pathElem \<noteq> [] then path @ [pathElem] else path)"

text \<open>\<^verbatim>\<open>for (let i = 0; i < depth; i++)\<close> runs the body for \<open>i = 0, \<dots>, depth - 1\<close>.\<close>

definition getPath :: "row \<Rightarrow> nat \<Rightarrow> string list" where
  "getPath rowMap depth = fold (getPath_body rowMap) [0..<depth] []"

text \<open>
  The state of the loop of \<^verbatim>\<open>mkDataView\<close>: the store of row objects, the array
  \<^verbatim>\<open>parentIdStack\<close> and the array \<^verbatim>\<open>rowData\<close> under construction. A JavaScript array
  that is written at any index and read at any index is a map from indices to values:
  reading an index never written gives \<^verbatim>\<open>undefined\<close>.
\<close>

type_synonym loopState = "heap \<times> (int \<rightharpoonup> nat) \<times> addr list"

definition mkDataView_body :: "ViewParams \<Rightarrow> addr list \<Rightarrow> nat \<Rightarrow> loopState \<Rightarrow> loopState" where
  "mkDataView_body viewParams tdRows i st =
     (case st of (h, parentIdStack, rowData) \<Rightarrow>
        let nPivots = length (vpivots viewParams);
            a = tdRows ! i;
            rowMap = h a;
            path = getPath rowMap nPivots;
            depth = r_depth rowMap;
            rowMap1 = rowMap\<lparr>r_isOpen := Some (isOpen (openPaths viewParams) path)\<rparr>;
            rowMap2 = rowMap1\<lparr>r_isLeaf := Some (depth > int nPivots)\<rparr>;
            rowMap3 = rowMap2\<lparr>r_id := Some i\<rparr>;
            parentIdStack' = parentIdStack(depth \<mapsto> i);
            parentId = (if depth > 0
                        then (case parentIdStack' (depth - 1) of
                                None \<Rightarrow> UndefinedParent
                              | Some p \<Rightarrow> ParentId p)
                        else NoParent);
            rowMap4 = rowMap3\<lparr>r_parentId := Some parentId\<rparr>
        in (h(a := rowMap4), parentIdStack', rowData @ [a]))"

definition mkDataView_loop :: "ViewParams \<Rightarrow> addr list \<Rightarrow> nat \<Rightarrow> heap \<Rightarrow> loopState" where
  "mkDataView_loop viewParams tdRows n h =
     fold (mkDataView_body viewParams tdRows) [0..<n] (h, Map.empty, [])"

text \<open>
  \<^verbatim>\<open>mkDataView\<close> returns the data view; the model returns the store after the loop as
  well, since the loop has written into the row objects.
\<close>

definition mkDataView :: "ViewParams \<Rightarrow> int \<Rightarrow> int \<Rightarrow> TableRep \<Rightarrow> heap \<Rightarrow> heap \<times> PagedDataView" where
  "mkDataView viewParams rowCount offset tableData h =
     (case mkDataView_loop viewParams (td_rowData tableData) (length (td_rowData tableData)) h of
        (h', parentIdStack, rowData) \<Rightarrow>
          let outSchema =
                schema_extend (schema_extend (schema_extend (schema_extend (td_schema tableData)
                  ''_id'' (''integer'', ''_id''))
                  ''_parentId'' (''integer'', ''_parentId''))
                  ''_isOpen'' (''integer'', ''_isOpen''))
                  ''_isLeaf'' (''integer'', ''_isLeaf'')
          in (h', \<lparr>pdv_schema = outSchema, pdv_rowCount = rowCount,
                    pdv_offset = offset, pdv_rowData = rowData\<rparr>))"

text \<open>
  The spec's wording of a row's path: the ordered list of the non-empty path segments at
  depths \<open>0, \<dots>, n - 1\<close>. It is compared with \<open>getPath\<close> below.
\<close>

definition pathSegments :: "row \<Rightarrow> nat \<Rightarrow> string list" where
  "pathSegments rowMap n = filter (\<lambda>s. s \<noteq> []) (List.map_filter (r_path rowMap) [0..<n])"

section \<open>The shared state and the requester\<close>

text \<open>A \<^verbatim>\<open>QueryView\<close>: the compiled query (opaque, a number here) and its row count.\<close>

record QueryView =
  qv_query :: nat
  qv_rowCount :: int

text \<open>
  Modelled from the spec: the loading timer (the class of \<^verbatim>\<open>viewState.loadingTimer\<close>)
  is not in \<^verbatim>\<open>PivotRequester.js\<close>. \<^verbatim>\<open>run\<close> schedules the timer when it is not
  running and changes nothing when it is; \<^verbatim>\<open>stop\<close> resets it to idle. The callback that
  fires after the delay belongs to the timer and is not part of the model.
\<close>

datatype timer = TimerIdle | TimerRunning nat

definition timer_run :: "nat \<Rightarrow> timer \<Rightarrow> timer" where
  "timer_run delay lt = (case lt of TimerIdle \<Rightarrow> TimerRunning delay | TimerRunning d \<Rightarrow> TimerRunning d)"

definition timer_stop :: "timer \<Rightarrow> timer" where
  "timer_stop lt = TimerIdle"

record ViewState =
  viewParams :: ViewParams
  viewportTop :: int
  viewportBottom :: int
  loadingTimer :: timer
  queryView :: "QueryView option"
  dataView :: "PagedDataView option"

record AppState =
  rtc :: nat
  baseQuery :: nat
  baseSchema :: schema
  viewState :: ViewState

text \<open>
  Promises are told apart by the number of the request they belong to: the promise of a
  compile request, the promise \<^verbatim>\<open>qreq.then(...)\<close> chained onto it, and the promise of a
  fetch.
\<close>

datatype promise = QueryPromise nat | ThenPromise nat | DataPromise nat

text \<open>
  The fields of a \<^verbatim>\<open>PivotRequester\<close>. The constructor sets four of them to \<^verbatim>\<open>null\<close>
  and leaves \<^verbatim>\<open>pendingOffset\<close> and \<^verbatim>\<open>pendingLimit\<close> unset: \<open>None\<close> is \<^verbatim>\<open>null\<close>
  for the former and \<^verbatim>\<open>undefined\<close> for the latter.
\<close>

record PivotRequester =
  pendingViewParams :: "ViewParams option"
  pendingQueryRequest :: "promise option"
  pendingDataRequest :: "promise option"
  currentQueryView :: "QueryView option"
  pendingOffset :: "int option"
  pendingLimit :: "int option"

text \<open>
  What the requester does to the outside, in the order in which it does it: a compile
  request (with its argument and the requester's fields at the moment of the call), a fetch
  (with the view parameters, the query view, the offset and the limit handed to
  \<^verbatim>\<open>requestDataView\<close>, and the requester's fields at that moment), and a write of the
  shared state with \<^verbatim>\<open>setValue\<close>.
\<close>

datatype effect =
    CompileIssued nat "ViewParams option" PivotRequester
  | FetchIssued nat ViewParams QueryView int int PivotRequester
  | StateWritten AppState

text \<open>
  The whole system as the requester sees it: the value held by \<^verbatim>\<open>stateRef\<close>, the
  requester's own fields, the store of row objects, the compile requests and the fetches
  in flight (each fetch with what the call of \<^verbatim>\<open>requestDataView\<close> has captured), the
  number of the next request, and the effects so far.
\<close>

record world =
  stateRef :: AppState
  requester :: PivotRequester
  rowStore :: heap
  queryRequests :: "nat \<rightharpoonup> ViewParams option"
  dataRequests :: "nat \<rightharpoonup> (ViewParams \<times> QueryView \<times> int \<times> int)"
  nextRequest :: nat
  effects :: "effect list"

text \<open>
  The paging module (\<^verbatim>\<open>paging.js\<close>) is not part of the source; its three functions are
  parameters of the model. \<^verbatim>\<open>contains\<close> receives \<^verbatim>\<open>pendingOffset\<close> and
  \<^verbatim>\<open>pendingLimit\<close> as the requester holds them, hence possibly \<^verbatim>\<open>undefined\<close>.
\<close>

record paging =
  fetchParams :: "int \<Rightarrow> int \<Rightarrow> int \<times> int"
  clampViewport :: "int \<Rightarrow> int \<Rightarrow> int \<Rightarrow> int \<times> int"
  contains :: "int option \<Rightarrow> int option \<Rightarrow> int \<Rightarrow> int \<Rightarrow> bool"

text \<open>
  \<^verbatim>\<open>stateRef.setValue\<close> replaces the shared state; the state container then notifies
  its subscribers, of which the requester is one since its constructor. \<open>setValue\<close> is
  the write alone. Where the write is the last statement of the code that makes it (the
  handler of a fetch, \<open>onStateChange\<close> itself), the notification is the next call of
  \<open>onStateChange\<close>, on the world as the write has left it. Where code follows the write
  (the continuation of a compile request), the notification runs in place, before that
  code: see \<open>changeNotification\<close> below.
\<close>

definition setValue :: "AppState \<Rightarrow> world \<Rightarrow> world" where
  "setValue v w = w\<lparr>stateRef := v, effects := effects w @ [StateWritten v]\<rparr>"

text \<open>
  \<^verbatim>\<open>requestQueryView\<close> up to its first \<^verbatim>\<open>await\<close>: the compile request leaves for the
  query engine and the caller gets the promise. The query view it resolves to is the
  engine's answer, see \<open>compileResolved\<close>.
\<close>

definition requestQueryView ::
    "nat \<Rightarrow> nat \<Rightarrow> schema \<Rightarrow> ViewParams option \<Rightarrow> world \<Rightarrow> nat \<times> world" where
  "requestQueryView rt bq bs vp w =
     (let n = nextRequest w
      in (n, w\<lparr>queryRequests := (queryRequests w)(n \<mapsto> vp),
                nextRequest := Suc n,
                effects := effects w @ [CompileIssued n vp (requester w)]\<rparr>))"

text \<open>
  \<^verbatim>\<open>requestDataView\<close> up to its \<^verbatim>\<open>await\<close>: \<^verbatim>\<open>rt.evalQuery\<close> is called and the
  arguments stay captured until the table arrives.
\<close>

definition requestDataView_call ::
    "nat \<Rightarrow> ViewParams \<Rightarrow> QueryView \<Rightarrow> int \<Rightarrow> int \<Rightarrow> world \<Rightarrow> nat \<times> world" where
  "requestDataView_call rt vp qv offset limit w =
     (let n = nextRequest w
      in (n, w\<lparr>dataRequests := (dataRequests w)(n \<mapsto> (vp, qv, offset, limit)),
                nextRequest := Suc n,
                effects := effects w @ [FetchIssued n vp qv offset limit (requester w)]\<rparr>))"

text \<open>\<^verbatim>\<open>requestDataView\<close> after its \<^verbatim>\<open>await\<close>, with the table that has arrived.\<close>

definition requestDataView ::
    "ViewParams \<Rightarrow> QueryView \<Rightarrow> int \<Rightarrow> int \<Rightarrow> TableRep \<Rightarrow> heap \<Rightarrow> heap \<times> PagedDataView" where
  "requestDataView vp qv offset limit tableData h =
     mkDataView vp (qv_rowCount qv) offset tableData h"

text \<open>The handler that \<^verbatim>\<open>requestData\<close> attaches with \<^verbatim>\<open>dreq.then\<close>.\<close>

definition requestData_then :: "PagedDataView \<Rightarrow> world \<Rightarrow> world" where
  "requestData_then dv w =
     (let w1 = w\<lparr>requester := (requester w)\<lparr>pendingDataRequest := None\<rparr>\<rparr>;
          appState = stateRef w1;
          vs = viewState appState;
          nextSt = appState\<lparr>viewState :=
                     vs\<lparr>loadingTimer := timer_stop (loadingTimer vs), dataView := Some dv\<rparr>\<rparr>
      in setValue nextSt w1)"

definition requestData :: "paging \<Rightarrow> QueryView \<Rightarrow> world \<Rightarrow> promise \<times> world" where
  "requestData pg qv w =
     (let appState = stateRef w;
          vs = viewState appState;
          vp = viewParams vs;
          (offset, limit) = fetchParams pg (viewportTop vs) (viewportBottom vs);
          w1 = w\<lparr>requester := (requester w)\<lparr>pendingOffset := Some offset\<rparr>\<rparr>;
          w2 = w1\<lparr>requester := (requester w1)\<lparr>pendingLimit := Some limit\<rparr>\<rparr>;
          (n, w3) = requestDataView_call (rtc appState) vp qv offset limit w2;
          w4 = w3\<lparr>requester := (requester w3)\<lparr>pendingDataRequest := Some (DataPromise n)\<rparr>\<rparr>
      in (DataPromise n, w4))"

text \<open>\<^verbatim>\<open>viewParams !== this.pendingViewParams\<close>: \<^verbatim>\<open>null\<close> differs from every object.\<close>

definition differs :: "ViewParams \<Rightarrow> ViewParams option \<Rightarrow> bool" where
  "differs vp pending = (case pending of None \<Rightarrow> True | Some vp' \<Rightarrow> vp_id vp \<noteq> vp_id vp')"

definition onStateChange :: "paging \<Rightarrow> world \<Rightarrow> world" where
  "onStateChange pg w =
     (let appState = stateRef w;
          vs = viewState appState;
          vp = viewParams vs
      in if differs vp (pendingViewParams (requester w)) then
           let w1 = w\<lparr>requester := (requester w)\<lparr>pendingViewParams := Some vp\<rparr>\<rparr>;
               (n, w2) = requestQueryView (rtc appState) (baseQuery appState) (baseSchema appState)
                           (pendingViewParams (requester w1)) w1;
               w3 = w2\<lparr>requester := (requester w2)\<lparr>pendingQueryRequest := Some (QueryPromise n)\<rparr>\<rparr>;
               w4 = w3\<lparr>requester := (requester w3)\<lparr>pendingDataRequest := Some (ThenPromise n)\<rparr>\<rparr>;
               nextAppState = appState\<lparr>viewState :=
                                vs\<lparr>loadingTimer := timer_run 200 (loadingTimer vs)\<rparr>\<rparr>
           in setValue nextAppState w4
         else
           (case currentQueryView (requester w) of
              None \<Rightarrow> w
            | Some qv \<Rightarrow>
                if \<not> contains pg (pendingOffset (requester w)) (pendingLimit (requester w))
                         (viewportTop vs) (viewportBottom vs)
                then snd (requestData pg qv w)
                else w))"

text \<open>
  The change notification as the state container delivers it inside \<^verbatim>\<open>setValue\<close>: the
  handler subscribed by the constructor, \<open>onStateChange\<close>, runs. When that call takes
  the branch of new view parameters, its last statement writes the state, and the
  notification of that write runs the handler once more before anything else; the second
  call finds the view parameters recorded, so it takes the other branch, which writes
  nothing.
\<close>

definition changeNotification :: "paging \<Rightarrow> world \<Rightarrow> world" where
  "changeNotification pg w =
     (if differs (viewParams (viewState (stateRef w))) (pendingViewParams (requester w))
      then onStateChange pg (onStateChange pg w)
      else onStateChange pg w)"

text \<open>
  The continuation that \<open>onStateChange\<close> attaches to the compile request with
  \<^verbatim>\<open>qreq.then\<close>. Its write of the clamped viewport notifies the requester before the
  continuation goes on to \<^verbatim>\<open>requestData\<close>.
\<close>

definition onStateChange_then :: "paging \<Rightarrow> QueryView \<Rightarrow> world \<Rightarrow> world" where
  "onStateChange_then pg qv w =
     (let w1 = w\<lparr>requester := (requester w)\<lparr>currentQueryView := Some qv\<rparr>\<rparr>;
          appState = stateRef w1;
          vs = viewState appState;
          (newTop, newBottom) = clampViewport pg (qv_rowCount qv) (viewportTop vs) (viewportBottom vs);
          nextSt = appState\<lparr>viewState :=
                     vs\<lparr>viewportTop := newTop, viewportBottom := newBottom, queryView := Some qv\<rparr>\<rparr>;
          w2 = setValue nextSt w1;
          w3 = changeNotification pg w2
      in snd (requestData pg qv w3))"

text \<open>
  The constructor: the fields are initialised, the requester subscribes to the changes of
  the state, and \<open>onStateChange\<close> is called once.
\<close>

definition newRequester :: PivotRequester where
  "newRequester = \<lparr>pendingViewParams = None, pendingQueryRequest = None,
                    pendingDataRequest = None, currentQueryView = None,
                    pendingOffset = None, pendingLimit = None\<rparr>"

definition constructor :: "paging \<Rightarrow> AppState \<Rightarrow> heap \<Rightarrow> world" where
  "constructor pg st h =
     onStateChange pg \<lparr>stateRef = st, requester = newRequester, rowStore = h,
                       queryRequests = Map.empty, dataRequests = Map.empty,
                       nextRequest = 0, effects = []\<rparr>"

text \<open>
  The events of the outside. A compile request in flight resolves with a query view: the
  continuation runs. A fetch in flight resolves with a table: the rest of
  \<^verbatim>\<open>requestDataView\<close> runs with what it has captured, then the handler. Neither a
  rejection nor a request that is not in flight runs any code of the requester.
\<close>

definition compileResolved :: "paging \<Rightarrow> nat \<Rightarrow> QueryView \<Rightarrow> world \<Rightarrow> world" where
  "compileResolved pg n qv w =
     (case queryRequests w n of
        None \<Rightarrow> w
      | Some vp \<Rightarrow> onStateChange_then pg qv (w\<lparr>queryRequests := (queryRequests w)(n := None)\<rparr>))"

definition fetchResolved :: "nat \<Rightarrow> TableRep \<Rightarrow> world \<Rightarrow> world" where
  "fetchResolved n tableData w =
     (case dataRequests w n of
        None \<Rightarrow> w
      | Some (vp, qv, offset, limit) \<Rightarrow>
          (case requestDataView vp qv offset limit tableData (rowStore w) of
             (h', dv) \<Rightarrow>
               requestData_then dv
                 (w\<lparr>rowStore := h', dataRequests := (dataRequests w)(n := None)\<rparr>)))"

text \<open>
  Another writer replaces the shared state and the requester is notified of the change.
\<close>

definition stateChanged :: "paging \<Rightarrow> AppState \<Rightarrow> world \<Rightarrow> world" where
  "stateChanged pg v w = onStateChange pg (w\<lparr>stateRef := v\<rparr>)"

section \<open>Counting requests, and the contract of the paging policy\<close>

text \<open>The compile requests and the fetches among the effects of a world.\<close>

fun isCompile :: "effect \<Rightarrow> bool" where
  "isCompile (CompileIssued n vp r) = True"
| "isCompile e = False"

fun isFetch :: "effect \<Rightarrow> bool" where
  "isFetch (FetchIssued n vp qv offset limit r) = True"
| "isFetch e = False"

definition compilesIssued :: "world \<Rightarrow> nat" where
  "compilesIssued w = length (filter isCompile (effects w))"

definition fetchesIssued :: "world \<Rightarrow> nat" where
  "fetchesIssued w = length (filter isFetch (effects w))"

text \<open>
  Modelled from the spec: \<^verbatim>\<open>paging.clampViewport\<close> is not part of the source. Its
  contract is that the viewport it returns lies inside the rows of the query: for a row
  count \<open>n \<ge> 0\<close> it returns \<open>(top', bottom')\<close> with \<open>0 \<le> top' \<le> bottom' \<le> n\<close>.
\<close>

definition clampViewport_contract :: "paging \<Rightarrow> bool" where
  "clampViewport_contract pg =
     (\<forall>n vt vb. 0 \<le> n \<longrightarrow>
        0 \<le> fst (clampViewport pg n vt vb) \<and>
        fst (clampViewport pg n vt vb) \<le> snd (clampViewport pg n vt vb) \<and>
        snd (clampViewport pg n vt vb) \<le> n)"

section \<open>Example inputs\<close>

text \<open>
  Concrete rows, tables and view parameters at which the theorems below are instantiated.
  The sample window has one pivot level: a group row at depth 1, two of its leaves at
  depth 2 and a second group row.
\<close>

definition sampleRow :: "int \<Rightarrow> (nat \<rightharpoonup> string) \<Rightarrow> row" where
  "sampleRow d p = \<lparr>r_depth = d, r_path = p, r_data = [], r_isOpen = None, r_isLeaf = None,
                     r_id = None, r_parentId = None\<rparr>"

definition sampleHeap :: heap where
  "sampleHeap = (\<lambda>a. sampleRow 0 Map.empty)
     (0 := sampleRow 1 [0 \<mapsto> ''east''],
      1 := sampleRow 2 [0 \<mapsto> ''east''],
      2 := sampleRow 2 [0 \<mapsto> ''east''],
      3 := sampleRow 1 [0 \<mapsto> ''west''],
      8 := sampleRow 1 Map.empty,
      9 := sampleRow 1 Map.empty,
      10 := sampleRow 0 Map.empty)"

definition sampleTable :: TableRep where
  "sampleTable = \<lparr>td_schema = [(''region'', (''text'', ''Region''))], td_rowData = [0, 1, 2, 3]\<rparr>"

definition sampleV1 :: ViewParams where
  "sampleV1 = \<lparr>vp_id = 1, vpivots = [''region''], openPaths = {[''east'']}\<rparr>"

text \<open>The same window behind a root row of depth 0.\<close>

definition rootedTable :: TableRep where
  "rootedTable = \<lparr>td_schema = [(''region'', (''text'', ''Region''))], td_rowData = [10, 0, 1, 2, 3]\<rparr>"

text \<open>A window that starts below its parent: its only row has depth 1.\<close>

definition orphanHeap :: heap where
  "orphanHeap = (\<lambda>a. sampleRow 0 Map.empty)(7 := sampleRow 1 [0 \<mapsto> ''east''])"

definition orphanTable :: TableRep where
  "orphanTable = \<lparr>td_schema = [], td_rowData = [7]\<rparr>"

definition sampleQV :: QueryView where
  "sampleQV = \<lparr>qv_query = 11, qv_rowCount = 50\<rparr>"

text \<open>A later window, and a flat window as a query without pivots returns it.\<close>

definition lateTable :: TableRep where
  "lateTable = \<lparr>td_schema = [(''region'', (''text'', ''Region''))], td_rowData = [5, 6]\<rparr>"

definition flatTable :: TableRep where
  "flatTable = \<lparr>td_schema = [(''region'', (''text'', ''Region''))], td_rowData = [8, 9]\<rparr>"

definition smallQV :: QueryView where
  "smallQV = \<lparr>qv_query = 12, qv_rowCount = 10\<rparr>"

text \<open>
  View parameters: a copy of \<open>sampleV1\<close> with the same contents and another identity,
  parameters without pivots and parameters with two pivots.
\<close>

definition sampleV1copy :: ViewParams where
  "sampleV1copy = \<lparr>vp_id = 2, vpivots = [''region''], openPaths = {[''east'']}\<rparr>"

definition sampleV0 :: ViewParams where
  "sampleV0 = \<lparr>vp_id = 0, vpivots = [], openPaths = {}\<rparr>"

definition sampleV2 :: ViewParams where
  "sampleV2 = \<lparr>vp_id = 3, vpivots = [''region'', ''city''], openPaths = {}\<rparr>"

text \<open>
  Modelled from the spec: one paging policy that meets the contracts of the spec (the
  fetch window covers the viewport, the clamped viewport lies inside the rows and keeps the
  span where it can, containment is inclusion of the viewport in the window; an
  \<^verbatim>\<open>undefined\<close> window contains nothing). The theorems hold for every policy; this one
  instantiates them.
\<close>

definition samplePaging :: paging where
  "samplePaging =
     \<lparr>fetchParams = (\<lambda>vt vb. (vt, vb - vt)),
      clampViewport = (\<lambda>n vt vb.
         let b = max 0 (min vb n); t = max 0 (min b (b - (vb - vt))) in (t, b)),
      contains = (\<lambda>offset limit vt vb.
         case offset of
           None \<Rightarrow> False
         | Some off \<Rightarrow> (case limit of None \<Rightarrow> False | Some lim \<Rightarrow> off \<le> vt \<and> vb \<le> off + lim))\<rparr>"

text \<open>Application states, and the worlds of a few runs of the requester.\<close>

definition sampleState :: "ViewParams \<Rightarrow> int \<Rightarrow> int \<Rightarrow> AppState" where
  "sampleState vp vt vb =
     \<lparr>rtc = 1, baseQuery = 2, baseSchema = [(''region'', (''text'', ''Region''))],
      viewState = \<lparr>viewParams = vp, viewportTop = vt, viewportBottom = vb,
                   loadingTimer = TimerIdle, queryView = None, dataView = None\<rparr>\<rparr>"

definition withViewport :: "int \<Rightarrow> int \<Rightarrow> AppState \<Rightarrow> AppState" where
  "withViewport vt vb st =
     st\<lparr>viewState := (viewState st)\<lparr>viewportTop := vt, viewportBottom := vb\<rparr>\<rparr>"

definition withViewParams :: "ViewParams \<Rightarrow> AppState \<Rightarrow> AppState" where
  "withViewParams vp st = st\<lparr>viewState := (viewState st)\<lparr>viewParams := vp\<rparr>\<rparr>"

text \<open>
  The requester is constructed on \<open>sampleV1\<close> with the viewport \<open>[0, 20)\<close> (\<open>bootW\<close>); its
  compile request resolves (\<open>readyW\<close>: the notification of the continuation's write
  issues fetch 1 and the continuation itself fetch 2); the viewport moves to \<open>[40, 60)\<close>
  (\<open>scrolledW\<close>) and the requester is notified, which issues fetch 3 (\<open>twoW\<close>).
\<close>

definition bootW :: world where
  "bootW = constructor samplePaging (sampleState sampleV1 0 20) sampleHeap"

definition readyW :: world where
  "readyW = compileResolved samplePaging 0 sampleQV bootW"

definition scrolledW :: world where
  "scrolledW = readyW\<lparr>stateRef := withViewport 40 60 (stateRef readyW)\<rparr>"

definition twoW :: world where
  "twoW = onStateChange samplePaging scrolledW"

text \<open>The viewport is \<open>[50, 70)\<close> when the compile request resolves.\<close>

definition lateW :: world where
  "lateW = bootW\<lparr>stateRef := withViewport 50 70 (stateRef bootW)\<rparr>"

text \<open>
  A race: the requester is constructed on \<open>sampleV0\<close>; the view parameters change to
  \<open>sampleV2\<close> while the first compile request is in flight (\<open>raceW1\<close>); the first compile
  request resolves (\<open>raceW2\<close>, which issues the fetches 2 and 3) and fetch 2 resolves
  (\<open>raceW3\<close>).
\<close>

definition raceW0 :: world where
  "raceW0 = constructor samplePaging (sampleState sampleV0 0 20) sampleHeap"

definition raceW1 :: world where
  "raceW1 = stateChanged samplePaging (withViewParams sampleV2 (stateRef raceW0)) raceW0"

definition raceW2 :: world where
  "raceW2 = compileResolved samplePaging 0 sampleQV raceW1"

definition raceW3 :: world where
  "raceW3 = fetchResolved 2 flatTable raceW2"

section \<open>The loop of mkDataView\<close>

text \<open>\<open>getPath\<close> computes the path as the spec words it.\<close>

lemma getPath_fold:
  "fold (getPath_body r) xs acc = acc @ filter (\<lambda>s. s \<noteq> []) (List.map_filter (r_path r) xs)"
  by (induction xs arbitrary: acc) (auto simp: getPath_body_def List.map_filter_simps split: option.splits)

lemma getPath_pathSegments: "getPath r n = pathSegments r n"
  by (simp add: getPath_def pathSegments_def getPath_fold)

lemma getPath_cong: "r_path r = r_path r' \<Longrightarrow> getPath r n = getPath r' n"
  by (simp add: getPath_pathSegments pathSegments_def)

lemma loop_0: "mkDataView_loop vp rows 0 h = (h, Map.empty, [])"
  by (simp add: mkDataView_loop_def)

lemma loop_Suc:
  "mkDataView_loop vp rows (Suc n) h = mkDataView_body vp rows n (mkDataView_loop vp rows n h)"
  by (simp add: mkDataView_loop_def)

lemma loop_rowData:
  "n \<le> length rows \<Longrightarrow> snd (snd (mkDataView_loop vp rows n h)) = take n rows"
proof (induction n)
  case 0
  then show ?case by (simp add: loop_0)
next
  case (Suc n)
  obtain h' st out where L: "mkDataView_loop vp rows n h = (h', st, out)"
    by (cases "mkDataView_loop vp rows n h") auto
  with Suc show ?case
    by (simp add: loop_Suc mkDataView_body_def Let_def take_Suc_conv_app_nth)
qed

lemma loop_frame:
  "r_depth (fst (mkDataView_loop vp rows n h) a) = r_depth (h a) \<and>
   r_path (fst (mkDataView_loop vp rows n h) a) = r_path (h a) \<and>
   r_data (fst (mkDataView_loop vp rows n h) a) = r_data (h a)"
proof (induction n arbitrary: a)
  case 0
  then show ?case by (simp add: loop_0)
next
  case (Suc n)
  obtain h' st out where L: "mkDataView_loop vp rows n h = (h', st, out)"
    by (cases "mkDataView_loop vp rows n h") auto
  have IH: "\<And>a. r_depth (h' a) = r_depth (h a) \<and> r_path (h' a) = r_path (h a) \<and> r_data (h' a) = r_data (h a)"
    using Suc.IH L by simp
  show ?case
    by (simp add: loop_Suc L mkDataView_body_def Let_def IH)
qed

lemma loop_outside:
  "a \<notin> set (take n rows) \<Longrightarrow> n \<le> length rows \<Longrightarrow> fst (mkDataView_loop vp rows n h) a = h a"
proof (induction n)
  case 0
  then show ?case by (simp add: loop_0)
next
  case (Suc n)
  obtain h' st out where L: "mkDataView_loop vp rows n h = (h', st, out)"
    by (cases "mkDataView_loop vp rows n h") auto
  from Suc.prems have "a \<notin> set (take n rows)" and "a \<noteq> rows ! n" and "n \<le> length rows"
    by (auto simp: take_Suc_conv_app_nth)
  with Suc.IH L show ?case
    by (simp add: loop_Suc mkDataView_body_def Let_def)
qed

lemma loop_stack:
  "fst (snd (mkDataView_loop vp rows n h)) d = Some j \<longleftrightarrow>
     j < n \<and> r_depth (h (rows ! j)) = d \<and> (\<forall>k. j < k \<and> k < n \<longrightarrow> r_depth (h (rows ! k)) \<noteq> d)"
proof (induction n arbitrary: j)
  case 0
  then show ?case by (simp add: loop_0)
next
  case (Suc n)
  obtain h' st out where L: "mkDataView_loop vp rows n h = (h', st, out)"
    by (cases "mkDataView_loop vp rows n h") auto
  have dep: "r_depth (h' (rows ! n)) = r_depth (h (rows ! n))"
    using loop_frame[of vp rows n h "rows ! n"] L by simp
  have IH: "\<And>j. st d = Some j \<longleftrightarrow>
     j < n \<and> r_depth (h (rows ! j)) = d \<and> (\<forall>k. j < k \<and> k < n \<longrightarrow> r_depth (h (rows ! k)) \<noteq> d)"
    using Suc.IH L by simp
  have S: "fst (snd (mkDataView_loop vp rows (Suc n) h)) = st(r_depth (h (rows ! n)) \<mapsto> n)"
    by (simp add: loop_Suc L mkDataView_body_def Let_def dep)
  show ?case
  proof (cases "r_depth (h (rows ! n)) = d")
    case True
    then show ?thesis unfolding S
      by (auto simp: less_Suc_eq)
  next
    case False
    then show ?thesis unfolding S
      using IH[of j] by (auto simp: less_Suc_eq)
  qed
qed


lemma loop_flags:
  "a \<in> set (take n rows) \<Longrightarrow> n \<le> length rows \<Longrightarrow>
     r_isOpen (fst (mkDataView_loop vp rows n h) a)
       = Some (isOpen (openPaths vp) (getPath (h a) (length (vpivots vp)))) \<and>
     r_isLeaf (fst (mkDataView_loop vp rows n h) a)
       = Some (r_depth (h a) > int (length (vpivots vp))) \<and>
     r_id (fst (mkDataView_loop vp rows n h) a) \<noteq> None \<and>
     r_parentId (fst (mkDataView_loop vp rows n h) a) \<noteq> None"
proof (induction n)
  case 0
  then show ?case by simp
next
  case (Suc n)
  obtain h' st out where L: "mkDataView_loop vp rows n h = (h', st, out)"
    by (cases "mkDataView_loop vp rows n h") auto
  have fr: "r_depth (h' (rows ! n)) = r_depth (h (rows ! n))"
           "r_path (h' (rows ! n)) = r_path (h (rows ! n))"
    using loop_frame[of vp rows n h "rows ! n"] L by simp_all
  have gp: "getPath (h' (rows ! n)) (length (vpivots vp)) = getPath (h (rows ! n)) (length (vpivots vp))"
    by (rule getPath_cong) (rule fr(2))
  show ?case
  proof (cases "a = rows ! n")
    case True
    then show ?thesis
      by (simp add: loop_Suc L mkDataView_body_def Let_def fr gp)
  next
    case False
    with Suc.prems have "a \<in> set (take n rows)" and "n \<le> length rows"
      by (auto simp: take_Suc_conv_app_nth)
    with Suc.IH L False show ?thesis
      by (simp add: loop_Suc mkDataView_body_def Let_def)
  qed
qed

lemma loop_later:
  "distinct rows \<Longrightarrow> k < m \<Longrightarrow> m \<le> n \<Longrightarrow> n \<le> length rows \<Longrightarrow>
     fst (mkDataView_loop vp rows n h) (rows ! k) = fst (mkDataView_loop vp rows m h) (rows ! k)"
proof (induction n)
  case 0
  then show ?case by simp
next
  case (Suc n)
  show ?case
  proof (cases "m = Suc n")
    case True
    then show ?thesis by simp
  next
    case False
    with Suc.prems have mn: "m \<le> n" and nl: "n < length rows" and kn: "k < n" by auto
    obtain h' st out where L: "mkDataView_loop vp rows n h = (h', st, out)"
      by (cases "mkDataView_loop vp rows n h") auto
    from Suc.prems(1) kn nl have ne: "rows ! k \<noteq> rows ! n"
      by (simp add: nth_eq_iff_index_eq)
    have "fst (mkDataView_loop vp rows (Suc n) h) (rows ! k) = h' (rows ! k)"
      using ne by (simp add: loop_Suc L mkDataView_body_def Let_def)
    also have "\<dots> = fst (mkDataView_loop vp rows m h) (rows ! k)"
      using Suc.IH[OF Suc.prems(1) Suc.prems(2) mn] nl L by simp
    finally show ?thesis .
  qed
qed

lemma loop_at:
  assumes "distinct rows" and "k < length rows"
  shows "r_id (fst (mkDataView_loop vp rows (Suc k) h) (rows ! k)) = Some k \<and>
         r_parentId (fst (mkDataView_loop vp rows (Suc k) h) (rows ! k)) =
           Some (if r_depth (h (rows ! k)) > 0
                 then (case fst (snd (mkDataView_loop vp rows (Suc k) h)) (r_depth (h (rows ! k)) - 1) of
                         None \<Rightarrow> UndefinedParent | Some p \<Rightarrow> ParentId p)
                 else NoParent)"
proof -
  obtain h' st out where L: "mkDataView_loop vp rows k h = (h', st, out)"
    by (cases "mkDataView_loop vp rows k h") auto
  have fr: "r_depth (h' (rows ! k)) = r_depth (h (rows ! k))"
    using loop_frame[of vp rows k h "rows ! k"] L by simp
  show ?thesis
    by (simp add: loop_Suc L mkDataView_body_def Let_def fr)
qed

lemma loop_row:
  assumes d: "distinct rows" and k: "k < length rows"
  shows "r_id (fst (mkDataView_loop vp rows (length rows) h) (rows ! k)) = Some k"
    and "r_parentId (fst (mkDataView_loop vp rows (length rows) h) (rows ! k)) =
           Some (if r_depth (h (rows ! k)) > 0
                 then (case fst (snd (mkDataView_loop vp rows (Suc k) h)) (r_depth (h (rows ! k)) - 1) of
                         None \<Rightarrow> UndefinedParent | Some p \<Rightarrow> ParentId p)
                 else NoParent)"
proof -
  have e: "fst (mkDataView_loop vp rows (length rows) h) (rows ! k)
           = fst (mkDataView_loop vp rows (Suc k) h) (rows ! k)"
    using loop_later[OF d, of k "Suc k" "length rows" vp h] k by simp
  show "r_id (fst (mkDataView_loop vp rows (length rows) h) (rows ! k)) = Some k"
    unfolding e using loop_at[OF d k] by simp
  show "r_parentId (fst (mkDataView_loop vp rows (length rows) h) (rows ! k)) =
           Some (if r_depth (h (rows ! k)) > 0
                 then (case fst (snd (mkDataView_loop vp rows (Suc k) h)) (r_depth (h (rows ! k)) - 1) of
                         None \<Rightarrow> UndefinedParent | Some p \<Rightarrow> ParentId p)
                 else NoParent)"
    unfolding e using loop_at[OF d k] by simp
qed

lemma mkDataView_heap:
  "fst (mkDataView vp rc off td h) = fst (mkDataView_loop vp (td_rowData td) (length (td_rowData td)) h)"
  by (simp add: mkDataView_def Let_def split: prod.splits)

lemma mkDataView_view:
  "snd (mkDataView vp rc off td h) =
     \<lparr>pdv_schema = schema_extend (schema_extend (schema_extend (schema_extend (td_schema td)
                  ''_id'' (''integer'', ''_id''))
                  ''_parentId'' (''integer'', ''_parentId''))
                  ''_isOpen'' (''integer'', ''_isOpen''))
                  ''_isLeaf'' (''integer'', ''_isLeaf''),
       pdv_rowCount = rc, pdv_offset = off, pdv_rowData = td_rowData td\<rparr>"
  using loop_rowData[of "length (td_rowData td)" "td_rowData td" vp h]
  by (auto simp add: mkDataView_def Let_def split: prod.splits)

section \<open>The requester, field by field\<close>

text \<open>What each function of the requester does to each component of the world.\<close>

lemma setValue_simps:
  "stateRef (setValue v w) = v"
  "requester (setValue v w) = requester w"
  "effects (setValue v w) = effects w @ [StateWritten v]"
  "nextRequest (setValue v w) = nextRequest w"
  "queryRequests (setValue v w) = queryRequests w"
  "dataRequests (setValue v w) = dataRequests w"
  "rowStore (setValue v w) = rowStore w"
  by (simp_all add: setValue_def)

lemma requestData_effects:
  "effects (snd (requestData pg qv w)) =
     effects w @ [FetchIssued (nextRequest w) (viewParams (viewState (stateRef w))) qv
        (fst (fetchParams pg (viewportTop (viewState (stateRef w))) (viewportBottom (viewState (stateRef w)))))
        (snd (fetchParams pg (viewportTop (viewState (stateRef w))) (viewportBottom (viewState (stateRef w)))))
        ((requester w)\<lparr>pendingOffset := Some (fst (fetchParams pg (viewportTop (viewState (stateRef w))) (viewportBottom (viewState (stateRef w))))),
                        pendingLimit := Some (snd (fetchParams pg (viewportTop (viewState (stateRef w))) (viewportBottom (viewState (stateRef w)))))\<rparr>)]"
  by (simp add: requestData_def requestDataView_call_def Let_def split: prod.splits)

lemma requestData_stateRef: "stateRef (snd (requestData pg qv w)) = stateRef w"
  by (simp add: requestData_def requestDataView_call_def Let_def split: prod.splits)

lemma requestData_dataRequests:
  "dataRequests (snd (requestData pg qv w)) =
     (dataRequests w)(nextRequest w \<mapsto> (viewParams (viewState (stateRef w)), qv,
        fetchParams pg (viewportTop (viewState (stateRef w))) (viewportBottom (viewState (stateRef w)))))"
  by (simp add: requestData_def requestDataView_call_def Let_def split: prod.splits)

lemma requestData_requester:
  "requester (snd (requestData pg qv w)) =
     (requester w)\<lparr>pendingOffset := Some (fst (fetchParams pg (viewportTop (viewState (stateRef w))) (viewportBottom (viewState (stateRef w))))),
                    pendingLimit := Some (snd (fetchParams pg (viewportTop (viewState (stateRef w))) (viewportBottom (viewState (stateRef w))))),
                    pendingDataRequest := Some (DataPromise (nextRequest w))\<rparr>"
  by (simp add: requestData_def requestDataView_call_def Let_def split: prod.splits)

lemma requestData_queryRequests: "queryRequests (snd (requestData pg qv w)) = queryRequests w"
  by (simp add: requestData_def requestDataView_call_def Let_def split: prod.splits)

lemma requestData_nextRequest: "nextRequest (snd (requestData pg qv w)) = Suc (nextRequest w)"
  by (simp add: requestData_def requestDataView_call_def Let_def split: prod.splits)

lemma requestData_rowStore: "rowStore (snd (requestData pg qv w)) = rowStore w"
  by (simp add: requestData_def requestDataView_call_def Let_def split: prod.splits)

lemma onStateChange_same:
  assumes "\<not> differs (viewParams (viewState (stateRef w))) (pendingViewParams (requester w))"
  shows "onStateChange pg w =
           (case currentQueryView (requester w) of
              None \<Rightarrow> w
            | Some qv \<Rightarrow>
                if \<not> contains pg (pendingOffset (requester w)) (pendingLimit (requester w))
                         (viewportTop (viewState (stateRef w))) (viewportBottom (viewState (stateRef w)))
                then snd (requestData pg qv w)
                else w)"
  using assms by (simp add: onStateChange_def Let_def)

lemma onStateChange_differs:
  assumes "differs (viewParams (viewState (stateRef w))) (pendingViewParams (requester w))"
  shows "effects (onStateChange pg w) =
           effects w @
             [CompileIssued (nextRequest w) (Some (viewParams (viewState (stateRef w))))
                ((requester w)\<lparr>pendingViewParams := Some (viewParams (viewState (stateRef w)))\<rparr>),
              StateWritten ((stateRef w)\<lparr>viewState := (viewState (stateRef w))
                 \<lparr>loadingTimer := timer_run 200 (loadingTimer (viewState (stateRef w)))\<rparr>\<rparr>)]"
    and "requester (onStateChange pg w) =
           (requester w)\<lparr>pendingViewParams := Some (viewParams (viewState (stateRef w))),
                          pendingQueryRequest := Some (QueryPromise (nextRequest w)),
                          pendingDataRequest := Some (ThenPromise (nextRequest w))\<rparr>"
    and "queryRequests (onStateChange pg w) =
           (queryRequests w)(nextRequest w \<mapsto> Some (viewParams (viewState (stateRef w))))"
    and "dataRequests (onStateChange pg w) = dataRequests w"
    and "stateRef (onStateChange pg w) = (stateRef w)\<lparr>viewState := (viewState (stateRef w))
                 \<lparr>loadingTimer := timer_run 200 (loadingTimer (viewState (stateRef w)))\<rparr>\<rparr>"
    and "nextRequest (onStateChange pg w) = Suc (nextRequest w)"
    and "rowStore (onStateChange pg w) = rowStore w"
  using assms
  by (simp_all add: onStateChange_def Let_def requestQueryView_def setValue_def)

lemma requestData_then_simps:
  "stateRef (requestData_then dv w) =
     (stateRef w)\<lparr>viewState := (viewState (stateRef w))
        \<lparr>loadingTimer := timer_stop (loadingTimer (viewState (stateRef w))), dataView := Some dv\<rparr>\<rparr>"
  "requester (requestData_then dv w) = (requester w)\<lparr>pendingDataRequest := None\<rparr>"
  "dataRequests (requestData_then dv w) = dataRequests w"
  "queryRequests (requestData_then dv w) = queryRequests w"
  "rowStore (requestData_then dv w) = rowStore w"
  "nextRequest (requestData_then dv w) = nextRequest w"
  "effects (requestData_then dv w) = effects w @ [StateWritten (stateRef (requestData_then dv w))]"
  by (simp_all add: requestData_then_def setValue_def Let_def)

lemma fetchResolved_Some:
  assumes "dataRequests w n = Some (vp, qv, off, lim)"
  shows "fetchResolved n td w =
           requestData_then (snd (requestDataView vp qv off lim td (rowStore w)))
             (w\<lparr>rowStore := fst (requestDataView vp qv off lim td (rowStore w)),
                dataRequests := (dataRequests w)(n := None)\<rparr>)"
  using assms by (simp add: fetchResolved_def split: prod.splits)

lemma fetchResolved_other:
  "n \<noteq> m \<Longrightarrow> dataRequests (fetchResolved m td w) n = dataRequests w n"
  by (cases "dataRequests w m")
     (auto simp: fetchResolved_def requestData_then_simps split: prod.splits)

lemma onStateChange_store:
  "viewParams (viewState (stateRef (onStateChange pg w))) = viewParams (viewState (stateRef w))"
  "viewportTop (viewState (stateRef (onStateChange pg w))) = viewportTop (viewState (stateRef w))"
  "viewportBottom (viewState (stateRef (onStateChange pg w))) = viewportBottom (viewState (stateRef w))"
  "queryView (viewState (stateRef (onStateChange pg w))) = queryView (viewState (stateRef w))"
  "dataView (viewState (stateRef (onStateChange pg w))) = dataView (viewState (stateRef w))"
proof -
  show "viewParams (viewState (stateRef (onStateChange pg w))) = viewParams (viewState (stateRef w))"
    by (cases "differs (viewParams (viewState (stateRef w))) (pendingViewParams (requester w))")
       (simp_all add: onStateChange_differs onStateChange_same requestData_stateRef split: option.splits)
  show "viewportTop (viewState (stateRef (onStateChange pg w))) = viewportTop (viewState (stateRef w))"
    by (cases "differs (viewParams (viewState (stateRef w))) (pendingViewParams (requester w))")
       (simp_all add: onStateChange_differs onStateChange_same requestData_stateRef split: option.splits)
  show "viewportBottom (viewState (stateRef (onStateChange pg w))) = viewportBottom (viewState (stateRef w))"
    by (cases "differs (viewParams (viewState (stateRef w))) (pendingViewParams (requester w))")
       (simp_all add: onStateChange_differs onStateChange_same requestData_stateRef split: option.splits)
  show "queryView (viewState (stateRef (onStateChange pg w))) = queryView (viewState (stateRef w))"
    by (cases "differs (viewParams (viewState (stateRef w))) (pendingViewParams (requester w))")
       (simp_all add: onStateChange_differs onStateChange_same requestData_stateRef split: option.splits)
  show "dataView (viewState (stateRef (onStateChange pg w))) = dataView (viewState (stateRef w))"
    by (cases "differs (viewParams (viewState (stateRef w))) (pendingViewParams (requester w))")
       (simp_all add: onStateChange_differs onStateChange_same requestData_stateRef split: option.splits)
qed

lemma onStateChange_currentQueryView:
  "currentQueryView (requester (onStateChange pg w)) = currentQueryView (requester w)"
  by (cases "differs (viewParams (viewState (stateRef w))) (pendingViewParams (requester w))")
     (simp_all add: onStateChange_differs onStateChange_same requestData_requester split: option.splits)

lemma onStateChange_effects_grow:
  "\<exists>es. effects (onStateChange pg w) = effects w @ es"
  by (cases "differs (viewParams (viewState (stateRef w))) (pendingViewParams (requester w))")
     (simp_all add: onStateChange_differs onStateChange_same requestData_effects split: option.splits)

text \<open>
  After a call of \<open>onStateChange\<close> the view parameters of the state are the ones recorded:
  a second call in the same state takes the branch that writes nothing.
\<close>

lemma onStateChange_records:
  "\<not> differs (viewParams (viewState (stateRef (onStateChange pg w))))
              (pendingViewParams (requester (onStateChange pg w)))"
proof (cases "differs (viewParams (viewState (stateRef w))) (pendingViewParams (requester w))")
  case True
  then show ?thesis
    by (simp add: onStateChange_differs differs_def)
next
  case False
  then show ?thesis
    by (simp add: onStateChange_same requestData_stateRef requestData_requester split: option.splits)
qed

lemma changeNotification_store:
  "viewParams (viewState (stateRef (changeNotification pg w))) = viewParams (viewState (stateRef w))"
  "viewportTop (viewState (stateRef (changeNotification pg w))) = viewportTop (viewState (stateRef w))"
  "viewportBottom (viewState (stateRef (changeNotification pg w))) = viewportBottom (viewState (stateRef w))"
  "queryView (viewState (stateRef (changeNotification pg w))) = queryView (viewState (stateRef w))"
  by (simp_all add: changeNotification_def onStateChange_store)

lemma changeNotification_currentQueryView:
  "currentQueryView (requester (changeNotification pg w)) = currentQueryView (requester w)"
  by (simp add: changeNotification_def onStateChange_currentQueryView)

lemma changeNotification_effects_grow:
  "\<exists>es. effects (changeNotification pg w) = effects w @ es"
proof (cases "differs (viewParams (viewState (stateRef w))) (pendingViewParams (requester w))")
  case True
  obtain es1 where e1: "effects (onStateChange pg w) = effects w @ es1"
    using onStateChange_effects_grow by blast
  obtain es2 where e2: "effects (onStateChange pg (onStateChange pg w)) = effects (onStateChange pg w) @ es2"
    using onStateChange_effects_grow by blast
  from True e1 e2 show ?thesis
    by (simp add: changeNotification_def)
next
  case False
  then show ?thesis
    by (simp add: changeNotification_def onStateChange_effects_grow)
qed

lemma changeNotification_records:
  "\<not> differs (viewParams (viewState (stateRef (changeNotification pg w))))
              (pendingViewParams (requester (changeNotification pg w)))"
  by (simp add: changeNotification_def onStateChange_records)

text \<open>The continuation of a compile request: the write, the notification, the fetch.\<close>

lemma onStateChange_then_unfold:
  "onStateChange_then pg qv w =
     snd (requestData pg qv
       (changeNotification pg
         (setValue
           ((stateRef w)\<lparr>viewState := (viewState (stateRef w))
              \<lparr>viewportTop := fst (clampViewport pg (qv_rowCount qv)
                   (viewportTop (viewState (stateRef w))) (viewportBottom (viewState (stateRef w)))),
               viewportBottom := snd (clampViewport pg (qv_rowCount qv)
                   (viewportTop (viewState (stateRef w))) (viewportBottom (viewState (stateRef w)))),
               queryView := Some qv\<rparr>\<rparr>)
           (w\<lparr>requester := (requester w)\<lparr>currentQueryView := Some qv\<rparr>\<rparr>))))"
  by (simp add: onStateChange_then_def Let_def split: prod.splits)

lemma onStateChange_then_store:
  "viewportTop (viewState (stateRef (onStateChange_then pg qv w)))
     = fst (clampViewport pg (qv_rowCount qv)
              (viewportTop (viewState (stateRef w))) (viewportBottom (viewState (stateRef w))))"
  "viewportBottom (viewState (stateRef (onStateChange_then pg qv w)))
     = snd (clampViewport pg (qv_rowCount qv)
              (viewportTop (viewState (stateRef w))) (viewportBottom (viewState (stateRef w))))"
  "queryView (viewState (stateRef (onStateChange_then pg qv w))) = Some qv"
  "viewParams (viewState (stateRef (onStateChange_then pg qv w))) = viewParams (viewState (stateRef w))"
  by (simp_all add: onStateChange_then_unfold requestData_stateRef changeNotification_store setValue_simps)

lemma onStateChange_then_requester:
  "currentQueryView (requester (onStateChange_then pg qv w)) = Some qv"
  by (simp add: onStateChange_then_unfold requestData_requester changeNotification_currentQueryView
      setValue_simps)

lemma onStateChange_then_effects:
  "\<exists>es k r.
     effects (onStateChange_then pg qv w) =
       effects w @
         [StateWritten
           ((stateRef w)\<lparr>viewState := (viewState (stateRef w))
              \<lparr>viewportTop := fst (clampViewport pg (qv_rowCount qv)
                   (viewportTop (viewState (stateRef w))) (viewportBottom (viewState (stateRef w)))),
               viewportBottom := snd (clampViewport pg (qv_rowCount qv)
                   (viewportTop (viewState (stateRef w))) (viewportBottom (viewState (stateRef w)))),
               queryView := Some qv\<rparr>\<rparr>)] @
         es @
         [FetchIssued k (viewParams (viewState (stateRef w))) qv
            (fst (fetchParams pg
               (viewportTop (viewState (stateRef (onStateChange_then pg qv w))))
               (viewportBottom (viewState (stateRef (onStateChange_then pg qv w))))))
            (snd (fetchParams pg
               (viewportTop (viewState (stateRef (onStateChange_then pg qv w))))
               (viewportBottom (viewState (stateRef (onStateChange_then pg qv w))))))
            r]"
proof -
  let ?st = "(stateRef w)\<lparr>viewState := (viewState (stateRef w))
              \<lparr>viewportTop := fst (clampViewport pg (qv_rowCount qv)
                   (viewportTop (viewState (stateRef w))) (viewportBottom (viewState (stateRef w)))),
               viewportBottom := snd (clampViewport pg (qv_rowCount qv)
                   (viewportTop (viewState (stateRef w))) (viewportBottom (viewState (stateRef w)))),
               queryView := Some qv\<rparr>\<rparr>"
  let ?w2 = "setValue ?st (w\<lparr>requester := (requester w)\<lparr>currentQueryView := Some qv\<rparr>\<rparr>)"
  let ?w3 = "changeNotification pg ?w2"
  obtain es where es: "effects ?w3 = effects ?w2 @ es"
    using changeNotification_effects_grow by blast
  have e2: "effects ?w2 = effects w @ [StateWritten ?st]"
    by (simp add: setValue_simps)
  have s3: "viewParams (viewState (stateRef ?w3)) = viewParams (viewState (stateRef w))"
           "viewportTop (viewState (stateRef ?w3)) = viewportTop (viewState (stateRef (onStateChange_then pg qv w)))"
           "viewportBottom (viewState (stateRef ?w3)) = viewportBottom (viewState (stateRef (onStateChange_then pg qv w)))"
    by (simp_all add: onStateChange_then_store changeNotification_store setValue_simps)
  have "effects (onStateChange_then pg qv w) = effects (snd (requestData pg qv ?w3))"
    by (simp only: onStateChange_then_unfold)
  also have "\<dots> = effects ?w3 @ [FetchIssued (nextRequest ?w3) (viewParams (viewState (stateRef w))) qv
            (fst (fetchParams pg
               (viewportTop (viewState (stateRef (onStateChange_then pg qv w))))
               (viewportBottom (viewState (stateRef (onStateChange_then pg qv w))))))
            (snd (fetchParams pg
               (viewportTop (viewState (stateRef (onStateChange_then pg qv w))))
               (viewportBottom (viewState (stateRef (onStateChange_then pg qv w))))))
            ((requester ?w3)\<lparr>pendingOffset := Some (fst (fetchParams pg
               (viewportTop (viewState (stateRef (onStateChange_then pg qv w))))
               (viewportBottom (viewState (stateRef (onStateChange_then pg qv w)))))),
               pendingLimit := Some (snd (fetchParams pg
               (viewportTop (viewState (stateRef (onStateChange_then pg qv w))))
               (viewportBottom (viewState (stateRef (onStateChange_then pg qv w))))))\<rparr>)]"
    unfolding requestData_effects s3 ..
  finally show ?thesis
    unfolding es e2 by auto
qed

lemma compileResolved_Some:
  "queryRequests w n = Some vp \<Longrightarrow>
     compileResolved pg n qv w = onStateChange_then pg qv (w\<lparr>queryRequests := (queryRequests w)(n := None)\<rparr>)"
  by (simp add: compileResolved_def)

text \<open>The sample policy meets the contract, and the sample worlds evaluate.\<close>

lemma samplePaging_contract: "clampViewport_contract samplePaging"
  by (auto simp: clampViewport_contract_def samplePaging_def Let_def)

lemma readyW_requester:
  "requester readyW = \<lparr>pendingViewParams = Some sampleV1, pendingQueryRequest = Some (QueryPromise 0),
                    pendingDataRequest = Some (DataPromise 2), currentQueryView = Some sampleQV,
                    pendingOffset = Some 0, pendingLimit = Some 20\<rparr>"
  by code_simp

lemma readyW_state:
  "viewState (stateRef readyW) = \<lparr>viewParams = sampleV1, viewportTop = 0, viewportBottom = 20,
                   loadingTimer = TimerRunning 200, queryView = Some sampleQV, dataView = None\<rparr>"
  by code_simp

lemma twoW_dataRequests:
  "dataRequests twoW 1 = Some (sampleV1, sampleQV, 0, 20)"
  "dataRequests twoW 3 = Some (sampleV1, sampleQV, 40, 20)"
  "pendingDataRequest (requester twoW) = Some (DataPromise 3)"
  by code_simp+

section \<open>The claims about mkDataView\<close>

text \<open>
  Claim C2 (parent linkage), as amended. In a window whose rows are distinct objects, a row
  at depth \<open>d > 0\<close> that is preceded in the window by a row of depth \<open>d - 1\<close> has as
  parent id the row id of the nearest such row, and a row whose depth is not positive has
  the parent id \<^verbatim>\<open>null\<close>. The claim as stated, which promises such a parent to every
  row of positive depth, fails on a window that starts below its parent (the
  counterexample after the witness).
\<close>

theorem mkDataView_parent_linkage:
  assumes "distinct (td_rowData td)" and "i < length (td_rowData td)"
  shows
    "(\<not> 0 < r_depth (h (td_rowData td ! i)) \<longrightarrow>
        r_parentId (fst (mkDataView vp rc off td h) (td_rowData td ! i)) = Some NoParent) \<and>
     (\<forall>j. 0 < r_depth (h (td_rowData td ! i)) \<and> j < i \<and>
          r_depth (h (td_rowData td ! j)) = r_depth (h (td_rowData td ! i)) - 1 \<and>
          (\<forall>k. j < k \<and> k < i \<longrightarrow>
             r_depth (h (td_rowData td ! k)) \<noteq> r_depth (h (td_rowData td ! i)) - 1) \<longrightarrow>
          r_parentId (fst (mkDataView vp rc off td h) (td_rowData td ! i)) = Some (ParentId j) \<and>
          r_id (fst (mkDataView vp rc off td h) (td_rowData td ! j)) = Some j)"
proof (intro conjI allI impI)
  assume "\<not> 0 < r_depth (h (td_rowData td ! i))"
  then show "r_parentId (fst (mkDataView vp rc off td h) (td_rowData td ! i)) = Some NoParent"
    using loop_row(2)[OF assms, of vp h] by (simp add: mkDataView_heap)
next
  fix j
  assume a: "0 < r_depth (h (td_rowData td ! i)) \<and> j < i \<and>
          r_depth (h (td_rowData td ! j)) = r_depth (h (td_rowData td ! i)) - 1 \<and>
          (\<forall>k. j < k \<and> k < i \<longrightarrow>
             r_depth (h (td_rowData td ! k)) \<noteq> r_depth (h (td_rowData td ! i)) - 1)"
  have "fst (snd (mkDataView_loop vp (td_rowData td) (Suc i) h)) (r_depth (h (td_rowData td ! i)) - 1) = Some j"
    unfolding loop_stack using a by (auto simp: less_Suc_eq)
  with a show "r_parentId (fst (mkDataView vp rc off td h) (td_rowData td ! i)) = Some (ParentId j)"
    using loop_row(2)[OF assms, of vp h] by (simp add: mkDataView_heap)
next
  fix j
  assume a: "0 < r_depth (h (td_rowData td ! i)) \<and> j < i \<and>
          r_depth (h (td_rowData td ! j)) = r_depth (h (td_rowData td ! i)) - 1 \<and>
          (\<forall>k. j < k \<and> k < i \<longrightarrow>
             r_depth (h (td_rowData td ! k)) \<noteq> r_depth (h (td_rowData td ! i)) - 1)"
  with assms have "j < length (td_rowData td)" by simp
  then show "r_id (fst (mkDataView vp rc off td h) (td_rowData td ! j)) = Some j"
    using loop_row(1)[OF assms(1), of j vp h] by (simp add: mkDataView_heap)
qed

theorem mkDataView_parent_linkage_witness:
  "r_parentId (fst (mkDataView sampleV1 50 0 rootedTable sampleHeap) (td_rowData rootedTable ! 0))
     = Some NoParent \<and>
   r_parentId (fst (mkDataView sampleV1 50 0 rootedTable sampleHeap) (td_rowData rootedTable ! 3))
     = Some (ParentId 1) \<and>
   r_id (fst (mkDataView sampleV1 50 0 rootedTable sampleHeap) (td_rowData rootedTable ! 1)) = Some 1"
proof -
  have d: "distinct (td_rowData rootedTable)"
    and l0: "0 < length (td_rowData rootedTable)" and l3: "3 < length (td_rowData rootedTable)"
    by (simp_all add: rootedTable_def)
  have z: "\<not> 0 < r_depth (sampleHeap (td_rowData rootedTable ! 0))"
    by (simp add: rootedTable_def sampleHeap_def sampleRow_def)
  have p: "0 < r_depth (sampleHeap (td_rowData rootedTable ! 3)) \<and> (1::nat) < 3 \<and>
          r_depth (sampleHeap (td_rowData rootedTable ! 1))
            = r_depth (sampleHeap (td_rowData rootedTable ! 3)) - 1 \<and>
          (\<forall>k. 1 < k \<and> k < 3 \<longrightarrow>
             r_depth (sampleHeap (td_rowData rootedTable ! k))
               \<noteq> r_depth (sampleHeap (td_rowData rootedTable ! 3)) - 1)"
  proof (intro conjI allI impI)
    fix k :: nat assume "1 < k \<and> k < 3"
    then have "k = 2" by simp
    then show "r_depth (sampleHeap (td_rowData rootedTable ! k))
               \<noteq> r_depth (sampleHeap (td_rowData rootedTable ! 3)) - 1"
      by (simp add: rootedTable_def sampleHeap_def sampleRow_def)
  qed (simp_all add: rootedTable_def sampleHeap_def sampleRow_def)
  from mkDataView_parent_linkage[OF d l0, of sampleHeap sampleV1 50 0] z
       mkDataView_parent_linkage[OF d l3, of sampleHeap sampleV1 50 0] p
  show ?thesis by blast
qed

theorem mkDataView_parent_counterexample:
  "td_rowData orphanTable = [7] \<and> r_depth (orphanHeap 7) = 1 \<and>
   r_id (fst (mkDataView sampleV1 50 20 orphanTable orphanHeap) 7) = Some 0 \<and>
   r_parentId (fst (mkDataView sampleV1 50 20 orphanTable orphanHeap) 7) = Some UndefinedParent \<and>
   r_parentId (fst (mkDataView sampleV1 50 20 orphanTable orphanHeap) 7) \<noteq> Some (ParentId 0)"
  by code_simp

text \<open>
  Claim C8. In a window whose rows are distinct objects, a row at depth \<open>d > 0\<close> that no
  row of depth \<open>d - 1\<close> precedes gets the parent id \<^verbatim>\<open>undefined\<close>, which is the id of no
  row.
\<close>

theorem mkDataView_orphan_undefined:
  assumes "distinct (td_rowData td)" and "i < length (td_rowData td)"
    and "0 < r_depth (h (td_rowData td ! i))"
    and "\<forall>j<i. r_depth (h (td_rowData td ! j)) \<noteq> r_depth (h (td_rowData td ! i)) - 1"
  shows "r_parentId (fst (mkDataView vp rc off td h) (td_rowData td ! i)) = Some UndefinedParent \<and>
         (\<forall>j. r_parentId (fst (mkDataView vp rc off td h) (td_rowData td ! i)) \<noteq> Some (ParentId j))"
proof -
  have "fst (snd (mkDataView_loop vp (td_rowData td) (Suc i) h)) (r_depth (h (td_rowData td ! i)) - 1) = None"
  proof (rule ccontr)
    assume "fst (snd (mkDataView_loop vp (td_rowData td) (Suc i) h)) (r_depth (h (td_rowData td ! i)) - 1) \<noteq> None"
    then obtain j where "fst (snd (mkDataView_loop vp (td_rowData td) (Suc i) h)) (r_depth (h (td_rowData td ! i)) - 1) = Some j"
      by auto
    then have "j < Suc i" and "r_depth (h (td_rowData td ! j)) = r_depth (h (td_rowData td ! i)) - 1"
      unfolding loop_stack by simp_all
    with assms(4) show False
      by (cases "j = i") auto
  qed
  with assms(3) have "r_parentId (fst (mkDataView vp rc off td h) (td_rowData td ! i)) = Some UndefinedParent"
    using loop_row(2)[OF assms(1,2), of vp h] by (simp add: mkDataView_heap)
  then show ?thesis by simp
qed

theorem mkDataView_orphan_undefined_witness:
  "r_parentId (fst (mkDataView sampleV1 50 0 sampleTable sampleHeap) (td_rowData sampleTable ! 0))
     = Some UndefinedParent \<and>
   (\<forall>j. r_parentId (fst (mkDataView sampleV1 50 0 sampleTable sampleHeap) (td_rowData sampleTable ! 0))
     \<noteq> Some (ParentId j))"
proof -
  have d: "distinct (td_rowData sampleTable)" and l: "0 < length (td_rowData sampleTable)"
    by (simp_all add: sampleTable_def)
  have p: "0 < r_depth (sampleHeap (td_rowData sampleTable ! 0))"
    by (simp add: sampleTable_def sampleHeap_def sampleRow_def)
  have q: "\<forall>j<0. r_depth (sampleHeap (td_rowData sampleTable ! j))
             \<noteq> r_depth (sampleHeap (td_rowData sampleTable ! 0)) - 1"
    by simp
  from mkDataView_orphan_undefined[OF d l p q] show ?thesis .
qed

text \<open>
  Claim C5 (open flag). Every row of the window has its open flag equal to the membership,
  in the open paths of the view parameters, of its path: the list of its non-empty path
  segments at depths \<open>0, \<dots>, nPivots - 1\<close>, which is what \<open>getPath\<close> computes.
\<close>

theorem mkDataView_open_flag:
  assumes "a \<in> set (td_rowData td)"
  shows "r_isOpen (fst (mkDataView vp rc off td h) a)
           = Some (pathSegments (fst (mkDataView vp rc off td h) a) (length (vpivots vp)) \<in> openPaths vp) \<and>
         getPath (fst (mkDataView vp rc off td h) a) (length (vpivots vp))
           = pathSegments (fst (mkDataView vp rc off td h) a) (length (vpivots vp))"
proof -
  let ?h' = "fst (mkDataView vp rc off td h)"
  have fr: "r_path (?h' a) = r_path (h a)"
    using loop_frame[of vp "td_rowData td" "length (td_rowData td)" h a]
    by (simp add: mkDataView_heap)
  have p: "pathSegments (?h' a) (length (vpivots vp)) = pathSegments (h a) (length (vpivots vp))"
    by (simp add: pathSegments_def fr)
  have o: "r_isOpen (?h' a) = Some (isOpen (openPaths vp) (getPath (h a) (length (vpivots vp))))"
    using assms loop_flags[of a "length (td_rowData td)" "td_rowData td" vp h]
    by (simp add: mkDataView_heap)
  show ?thesis
    unfolding o p getPath_pathSegments isOpen_def by simp
qed

theorem mkDataView_open_flag_witness:
  "r_isOpen (fst (mkDataView sampleV1 50 0 sampleTable sampleHeap) 1)
           = Some (pathSegments (fst (mkDataView sampleV1 50 0 sampleTable sampleHeap) 1)
                     (length (vpivots sampleV1)) \<in> openPaths sampleV1) \<and>
   pathSegments (fst (mkDataView sampleV1 50 0 sampleTable sampleHeap) 1) (length (vpivots sampleV1))
     = [''east'']"
proof -
  have m: "1 \<in> set (td_rowData sampleTable)"
    by (simp add: sampleTable_def)
  have e: "getPath (fst (mkDataView sampleV1 50 0 sampleTable sampleHeap) 1) (length (vpivots sampleV1))
             = [''east'']"
    by code_simp
  from mkDataView_open_flag[OF m, of sampleV1 50 0 sampleHeap] e show ?thesis
    by simp
qed

text \<open>
  Claim C9 (mutation in place). The rows of the returned data view are the very objects of
  the input table; after the call each of them has the four synthetic fields, so an input
  row that had no \<^verbatim>\<open>_id\<close> has changed; no other object is written.
\<close>

theorem mkDataView_in_place:
  "pdv_rowData (snd (mkDataView vp rc off td h)) = td_rowData td \<and>
   (\<forall>a\<in>set (td_rowData td).
      r_id (fst (mkDataView vp rc off td h) a) \<noteq> None \<and>
      r_parentId (fst (mkDataView vp rc off td h) a) \<noteq> None \<and>
      r_isOpen (fst (mkDataView vp rc off td h) a) \<noteq> None \<and>
      r_isLeaf (fst (mkDataView vp rc off td h) a) \<noteq> None \<and>
      (r_id (h a) = None \<longrightarrow> fst (mkDataView vp rc off td h) a \<noteq> h a)) \<and>
   (\<forall>a. a \<notin> set (td_rowData td) \<longrightarrow> fst (mkDataView vp rc off td h) a = h a)"
proof (intro conjI ballI allI impI)
  show "pdv_rowData (snd (mkDataView vp rc off td h)) = td_rowData td"
    by (simp add: mkDataView_view)
next
  fix a assume a: "a \<in> set (td_rowData td)"
  note fl = loop_flags[of a "length (td_rowData td)" "td_rowData td" vp h]
  show i: "r_id (fst (mkDataView vp rc off td h) a) \<noteq> None"
    using a fl by (simp add: mkDataView_heap)
  show "r_parentId (fst (mkDataView vp rc off td h) a) \<noteq> None"
    using a fl by (simp add: mkDataView_heap)
  show "r_isOpen (fst (mkDataView vp rc off td h) a) \<noteq> None"
    using a fl by (simp add: mkDataView_heap)
  show "r_isLeaf (fst (mkDataView vp rc off td h) a) \<noteq> None"
    using a fl by (simp add: mkDataView_heap)
  assume "r_id (h a) = None"
  with i show "fst (mkDataView vp rc off td h) a \<noteq> h a"
    by auto
next
  fix a assume "a \<notin> set (td_rowData td)"
  then show "fst (mkDataView vp rc off td h) a = h a"
    using loop_outside[of a "length (td_rowData td)" "td_rowData td" vp h]
    by (simp add: mkDataView_heap)
qed

theorem mkDataView_in_place_witness:
  "pdv_rowData (snd (mkDataView sampleV1 50 0 sampleTable sampleHeap)) = [0, 1, 2, 3] \<and>
   r_id (sampleHeap 3) = None \<and>
   r_id (fst (mkDataView sampleV1 50 0 sampleTable sampleHeap) 3) \<noteq> None \<and>
   fst (mkDataView sampleV1 50 0 sampleTable sampleHeap) 3 \<noteq> sampleHeap 3 \<and>
   fst (mkDataView sampleV1 50 0 sampleTable sampleHeap) 4 = sampleHeap 4"
proof -
  have m: "3 \<in> set (td_rowData sampleTable)" and n: "4 \<notin> set (td_rowData sampleTable)"
    and r: "td_rowData sampleTable = [0, 1, 2, 3]"
    by (simp_all add: sampleTable_def)
  have e: "r_id (sampleHeap 3) = None"
    by (simp add: sampleHeap_def sampleRow_def)
  from mkDataView_in_place[of sampleV1 50 0 sampleTable sampleHeap] m n r e show ?thesis
    by auto
qed

text \<open>
  Claim C10 (the window is preserved). The returned data view holds the rows of the input
  table in the same order, and the row count and the offset it was given, which
  \<^verbatim>\<open>requestDataView\<close> takes from the query view and from the requested window; the
  columns of the query are left as they were.
\<close>

theorem mkDataView_preserves_window:
  "pdv_rowData (snd (mkDataView vp rc off td h)) = td_rowData td \<and>
   length (pdv_rowData (snd (mkDataView vp rc off td h))) = length (td_rowData td) \<and>
   pdv_rowCount (snd (mkDataView vp rc off td h)) = rc \<and>
   pdv_offset (snd (mkDataView vp rc off td h)) = off \<and>
   pdv_rowCount (snd (requestDataView vp qv off lim td h)) = qv_rowCount qv \<and>
   pdv_offset (snd (requestDataView vp qv off lim td h)) = off \<and>
   pdv_rowData (snd (requestDataView vp qv off lim td h)) = td_rowData td \<and>
   (\<forall>a. r_depth (fst (mkDataView vp rc off td h) a) = r_depth (h a) \<and>
        r_path (fst (mkDataView vp rc off td h) a) = r_path (h a) \<and>
        r_data (fst (mkDataView vp rc off td h) a) = r_data (h a))"
  using loop_frame[of vp "td_rowData td" "length (td_rowData td)" h]
  by (simp add: mkDataView_view requestDataView_def mkDataView_heap)

section \<open>The claims about the requester\<close>

text \<open>
  Claim C1 (the fetch handler). The handler of a fetch stops the loading timer and writes
  the data view it is given into the shared state, whatever the state of the requester:
  a fetch in flight that resolves has its own data view written, and when an older fetch
  resolves after a newer one, the older one's data view is what the state holds.
\<close>

theorem requestData_then_unconditional:
  "dataView (viewState (stateRef (requestData_then dv w))) = Some dv \<and>
   loadingTimer (viewState (stateRef (requestData_then dv w)))
     = timer_stop (loadingTimer (viewState (stateRef w))) \<and>
   loadingTimer (viewState (stateRef (requestData_then dv w))) = TimerIdle \<and>
   effects (requestData_then dv w) = effects w @ [StateWritten (stateRef (requestData_then dv w))] \<and>
   (dataRequests w n = Some (vp, qv, off, lim) \<longrightarrow>
      dataView (viewState (stateRef (fetchResolved n td w)))
        = Some (snd (requestDataView vp qv off lim td (rowStore w))) \<and>
      loadingTimer (viewState (stateRef (fetchResolved n td w))) = TimerIdle) \<and>
   (n < m \<and> dataRequests w n = Some (vp, qv, off, lim) \<and> dataRequests w m \<noteq> None \<longrightarrow>
      dataView (viewState (stateRef (fetchResolved n td (fetchResolved m td' w))))
        = Some (snd (requestDataView vp qv off lim td (rowStore (fetchResolved m td' w)))))"
proof (intro conjI impI)
  show "dataView (viewState (stateRef (requestData_then dv w))) = Some dv"
    and "loadingTimer (viewState (stateRef (requestData_then dv w)))
           = timer_stop (loadingTimer (viewState (stateRef w)))"
    and "loadingTimer (viewState (stateRef (requestData_then dv w))) = TimerIdle"
    by (simp_all add: requestData_then_simps timer_stop_def)
  show "effects (requestData_then dv w) = effects w @ [StateWritten (stateRef (requestData_then dv w))]"
    by (rule requestData_then_simps)
next
  assume a: "dataRequests w n = Some (vp, qv, off, lim)"
  show "dataView (viewState (stateRef (fetchResolved n td w)))
        = Some (snd (requestDataView vp qv off lim td (rowStore w)))"
    by (simp add: fetchResolved_Some[OF a] requestData_then_simps)
  show "loadingTimer (viewState (stateRef (fetchResolved n td w))) = TimerIdle"
    by (simp add: fetchResolved_Some[OF a] requestData_then_simps timer_stop_def)
next
  assume a: "n < m \<and> dataRequests w n = Some (vp, qv, off, lim) \<and> dataRequests w m \<noteq> None"
  then have "dataRequests (fetchResolved m td' w) n = Some (vp, qv, off, lim)"
    by (simp add: fetchResolved_other)
  then show "dataView (viewState (stateRef (fetchResolved n td (fetchResolved m td' w))))
        = Some (snd (requestDataView vp qv off lim td (rowStore (fetchResolved m td' w))))"
    by (simp add: fetchResolved_Some requestData_then_simps)
qed

theorem requestData_then_unconditional_witness:
  "pendingDataRequest (requester twoW) = Some (DataPromise 3) \<and>
   dataView (viewState (stateRef (fetchResolved 1 sampleTable twoW)))
     = Some (snd (requestDataView sampleV1 sampleQV 0 20 sampleTable (rowStore twoW))) \<and>
   dataView (viewState (stateRef (fetchResolved 1 sampleTable (fetchResolved 3 lateTable twoW))))
     = Some (snd (requestDataView sampleV1 sampleQV 0 20 sampleTable
                    (rowStore (fetchResolved 3 lateTable twoW))))"
proof -
  have a: "(1::nat) < 3 \<and> dataRequests twoW 1 = Some (sampleV1, sampleQV, 0, 20) \<and>
           dataRequests twoW 3 \<noteq> None"
    using twoW_dataRequests by simp
  from requestData_then_unconditional[of _ twoW 1 sampleV1 sampleQV 0 20 sampleTable 3 lateTable] a
       twoW_dataRequests(3)
  show ?thesis by blast
qed

text \<open>
  Claim C3 (viewport containment). In a call of \<open>onStateChange\<close> whose view parameters are
  the last observed ones: when the paging policy says the viewport is contained in the
  window of the last fetch issued, the world is unchanged (no fetch is issued, and
  \<^verbatim>\<open>pendingOffset\<close>, \<^verbatim>\<open>pendingLimit\<close> and \<^verbatim>\<open>pendingDataRequest\<close> are as before); when a
  query view is resolved and the viewport is not contained, the call is one call of
  \<open>requestData\<close> and issues exactly one fetch.
\<close>

theorem onStateChange_viewport:
  assumes "\<not> differs (viewParams (viewState (stateRef w))) (pendingViewParams (requester w))"
  shows
    "(contains pg (pendingOffset (requester w)) (pendingLimit (requester w))
         (viewportTop (viewState (stateRef w))) (viewportBottom (viewState (stateRef w))) \<longrightarrow>
        onStateChange pg w = w \<and>
        fetchesIssued (onStateChange pg w) = fetchesIssued w \<and>
        pendingOffset (requester (onStateChange pg w)) = pendingOffset (requester w) \<and>
        pendingLimit (requester (onStateChange pg w)) = pendingLimit (requester w) \<and>
        pendingDataRequest (requester (onStateChange pg w)) = pendingDataRequest (requester w)) \<and>
     (currentQueryView (requester w) = Some qv \<and>
      \<not> contains pg (pendingOffset (requester w)) (pendingLimit (requester w))
         (viewportTop (viewState (stateRef w))) (viewportBottom (viewState (stateRef w))) \<longrightarrow>
        onStateChange pg w = snd (requestData pg qv w) \<and>
        fetchesIssued (onStateChange pg w) = Suc (fetchesIssued w) \<and>
        compilesIssued (onStateChange pg w) = compilesIssued w \<and>
        effects (onStateChange pg w) =
          effects w @ [FetchIssued (nextRequest w) (viewParams (viewState (stateRef w))) qv
            (fst (fetchParams pg (viewportTop (viewState (stateRef w))) (viewportBottom (viewState (stateRef w)))))
            (snd (fetchParams pg (viewportTop (viewState (stateRef w))) (viewportBottom (viewState (stateRef w)))))
            ((requester w)\<lparr>pendingOffset := Some (fst (fetchParams pg (viewportTop (viewState (stateRef w))) (viewportBottom (viewState (stateRef w))))),
                            pendingLimit := Some (snd (fetchParams pg (viewportTop (viewState (stateRef w))) (viewportBottom (viewState (stateRef w)))))\<rparr>)])"
proof (intro conjI impI)
  assume c: "contains pg (pendingOffset (requester w)) (pendingLimit (requester w))
         (viewportTop (viewState (stateRef w))) (viewportBottom (viewState (stateRef w)))"
  show e: "onStateChange pg w = w"
    using c by (simp add: onStateChange_same[OF assms] split: option.splits)
  show "fetchesIssued (onStateChange pg w) = fetchesIssued w"
    and "pendingOffset (requester (onStateChange pg w)) = pendingOffset (requester w)"
    and "pendingLimit (requester (onStateChange pg w)) = pendingLimit (requester w)"
    and "pendingDataRequest (requester (onStateChange pg w)) = pendingDataRequest (requester w)"
    by (simp_all add: e)
next
  assume c: "currentQueryView (requester w) = Some qv \<and>
      \<not> contains pg (pendingOffset (requester w)) (pendingLimit (requester w))
         (viewportTop (viewState (stateRef w))) (viewportBottom (viewState (stateRef w)))"
  show e: "onStateChange pg w = snd (requestData pg qv w)"
    using c by (simp add: onStateChange_same[OF assms])
  show "fetchesIssued (onStateChange pg w) = Suc (fetchesIssued w)"
    by (simp add: e fetchesIssued_def requestData_effects)
  show "compilesIssued (onStateChange pg w) = compilesIssued w"
    by (simp add: e compilesIssued_def requestData_effects)
  show "effects (onStateChange pg w) =
          effects w @ [FetchIssued (nextRequest w) (viewParams (viewState (stateRef w))) qv
            (fst (fetchParams pg (viewportTop (viewState (stateRef w))) (viewportBottom (viewState (stateRef w)))))
            (snd (fetchParams pg (viewportTop (viewState (stateRef w))) (viewportBottom (viewState (stateRef w)))))
            ((requester w)\<lparr>pendingOffset := Some (fst (fetchParams pg (viewportTop (viewState (stateRef w))) (viewportBottom (viewState (stateRef w))))),
                            pendingLimit := Some (snd (fetchParams pg (viewportTop (viewState (stateRef w))) (viewportBottom (viewState (stateRef w)))))\<rparr>)]"
    by (simp add: e requestData_effects)
qed

theorem onStateChange_viewport_witness:
  "onStateChange samplePaging readyW = readyW \<and>
   fetchesIssued (onStateChange samplePaging scrolledW) = Suc (fetchesIssued scrolledW) \<and>
   pendingOffset (requester (onStateChange samplePaging scrolledW)) = Some 40"
proof -
  have a: "\<not> differs (viewParams (viewState (stateRef readyW))) (pendingViewParams (requester readyW))"
    by (simp add: readyW_requester readyW_state differs_def)
  have b: "contains samplePaging (pendingOffset (requester readyW)) (pendingLimit (requester readyW))
         (viewportTop (viewState (stateRef readyW))) (viewportBottom (viewState (stateRef readyW)))"
    by (simp add: readyW_requester readyW_state samplePaging_def)
  have r: "requester scrolledW = requester readyW"
    and s: "viewState (stateRef scrolledW) = (viewState (stateRef readyW))\<lparr>viewportTop := 40, viewportBottom := 60\<rparr>"
    by (simp_all add: scrolledW_def withViewport_def)
  have c: "\<not> differs (viewParams (viewState (stateRef scrolledW))) (pendingViewParams (requester scrolledW))"
    by (simp add: r s readyW_requester readyW_state differs_def)
  have d: "currentQueryView (requester scrolledW) = Some sampleQV \<and>
      \<not> contains samplePaging (pendingOffset (requester scrolledW)) (pendingLimit (requester scrolledW))
         (viewportTop (viewState (stateRef scrolledW))) (viewportBottom (viewState (stateRef scrolledW)))"
    by (simp add: r s readyW_requester readyW_state samplePaging_def)
  have e: "onStateChange samplePaging scrolledW = snd (requestData samplePaging sampleQV scrolledW)"
    using onStateChange_viewport[OF c, of samplePaging sampleQV] d by blast
  have f: "pendingOffset (requester (onStateChange samplePaging scrolledW)) = Some 40"
    unfolding e by (simp add: requestData_requester s readyW_state samplePaging_def)
  from onStateChange_viewport[OF a, of samplePaging sampleQV] b
       onStateChange_viewport[OF c, of samplePaging sampleQV] d f
  show ?thesis by blast
qed

text \<open>
  Claim C4 (reclamp on compile). When a compile request in flight resolves with a query
  view of row count \<open>N \<ge> 0\<close>, the continuation writes into the shared state the viewport
  that the paging policy's \<^verbatim>\<open>clampViewport\<close> returns, which satisfies
  \<open>0 \<le> top \<le> bottom \<le> N\<close> for a policy that meets its contract, and the state still
  holds that viewport when the continuation ends. The write is the first thing the
  continuation does to the outside: whatever the notification of the write makes the
  requester do comes after it, and so does the fetch for that query view, which ends the
  continuation and is computed from the clamped viewport.
\<close>

theorem compileResolved_clamps:
  assumes "clampViewport_contract pg" and "0 \<le> qv_rowCount qv" and "queryRequests w n = Some vp"
  shows
    "(viewportTop (viewState (stateRef (compileResolved pg n qv w))),
      viewportBottom (viewState (stateRef (compileResolved pg n qv w))))
       = clampViewport pg (qv_rowCount qv)
           (viewportTop (viewState (stateRef w))) (viewportBottom (viewState (stateRef w))) \<and>
     0 \<le> viewportTop (viewState (stateRef (compileResolved pg n qv w))) \<and>
     viewportTop (viewState (stateRef (compileResolved pg n qv w)))
       \<le> viewportBottom (viewState (stateRef (compileResolved pg n qv w))) \<and>
     viewportBottom (viewState (stateRef (compileResolved pg n qv w))) \<le> qv_rowCount qv \<and>
     queryView (viewState (stateRef (compileResolved pg n qv w))) = Some qv \<and>
     currentQueryView (requester (compileResolved pg n qv w)) = Some qv \<and>
     (\<exists>es k r.
        effects (compileResolved pg n qv w) =
          effects w @
            [StateWritten
              ((stateRef w)\<lparr>viewState := (viewState (stateRef w))
                 \<lparr>viewportTop := fst (clampViewport pg (qv_rowCount qv)
                      (viewportTop (viewState (stateRef w))) (viewportBottom (viewState (stateRef w)))),
                  viewportBottom := snd (clampViewport pg (qv_rowCount qv)
                      (viewportTop (viewState (stateRef w))) (viewportBottom (viewState (stateRef w)))),
                  queryView := Some qv\<rparr>\<rparr>)] @
            es @
            [FetchIssued k (viewParams (viewState (stateRef w))) qv
               (fst (fetchParams pg
                  (viewportTop (viewState (stateRef (compileResolved pg n qv w))))
                  (viewportBottom (viewState (stateRef (compileResolved pg n qv w))))))
               (snd (fetchParams pg
                  (viewportTop (viewState (stateRef (compileResolved pg n qv w))))
                  (viewportBottom (viewState (stateRef (compileResolved pg n qv w))))))
               r])"
proof -
  let ?w = "w\<lparr>queryRequests := (queryRequests w)(n := None)\<rparr>"
  have e: "compileResolved pg n qv w = onStateChange_then pg qv ?w"
    by (rule compileResolved_Some[OF assms(3)])
  have c: "0 \<le> fst (clampViewport pg (qv_rowCount qv) (viewportTop (viewState (stateRef w))) (viewportBottom (viewState (stateRef w)))) \<and>
     fst (clampViewport pg (qv_rowCount qv) (viewportTop (viewState (stateRef w))) (viewportBottom (viewState (stateRef w))))
       \<le> snd (clampViewport pg (qv_rowCount qv) (viewportTop (viewState (stateRef w))) (viewportBottom (viewState (stateRef w)))) \<and>
     snd (clampViewport pg (qv_rowCount qv) (viewportTop (viewState (stateRef w))) (viewportBottom (viewState (stateRef w)))) \<le> qv_rowCount qv"
    using assms(1,2) unfolding clampViewport_contract_def by blast
  have s: "viewportTop (viewState (stateRef (onStateChange_then pg qv ?w)))
             = fst (clampViewport pg (qv_rowCount qv)
                 (viewportTop (viewState (stateRef w))) (viewportBottom (viewState (stateRef w))))"
          "viewportBottom (viewState (stateRef (onStateChange_then pg qv ?w)))
             = snd (clampViewport pg (qv_rowCount qv)
                 (viewportTop (viewState (stateRef w))) (viewportBottom (viewState (stateRef w))))"
          "queryView (viewState (stateRef (onStateChange_then pg qv ?w))) = Some qv"
    by (simp_all add: onStateChange_then_store)
  have f: "\<exists>es k r.
        effects (onStateChange_then pg qv ?w) =
          effects w @
            [StateWritten
              ((stateRef w)\<lparr>viewState := (viewState (stateRef w))
                 \<lparr>viewportTop := fst (clampViewport pg (qv_rowCount qv)
                      (viewportTop (viewState (stateRef w))) (viewportBottom (viewState (stateRef w)))),
                  viewportBottom := snd (clampViewport pg (qv_rowCount qv)
                      (viewportTop (viewState (stateRef w))) (viewportBottom (viewState (stateRef w)))),
                  queryView := Some qv\<rparr>\<rparr>)] @
            es @
            [FetchIssued k (viewParams (viewState (stateRef w))) qv
               (fst (fetchParams pg
                  (viewportTop (viewState (stateRef (onStateChange_then pg qv ?w))))
                  (viewportBottom (viewState (stateRef (onStateChange_then pg qv ?w))))))
               (snd (fetchParams pg
                  (viewportTop (viewState (stateRef (onStateChange_then pg qv ?w))))
                  (viewportBottom (viewState (stateRef (onStateChange_then pg qv ?w))))))
               r]"
    using onStateChange_then_effects[of pg qv ?w] by simp
  show ?thesis
    unfolding e
    apply (intro conjI)
          apply (simp add: s)
         apply (simp add: s c)
        apply (simp add: s c)
       apply (simp add: s c)
      apply (rule s(3))
     apply (rule onStateChange_then_requester)
    apply (rule f)
    done
qed

theorem compileResolved_clamps_witness:
  "viewportTop (viewState (stateRef lateW)) = 50 \<and>
   viewportBottom (viewState (stateRef lateW)) = 70 \<and>
   viewportTop (viewState (stateRef (compileResolved samplePaging 0 smallQV lateW))) = 0 \<and>
   viewportBottom (viewState (stateRef (compileResolved samplePaging 0 smallQV lateW))) = 10 \<and>
   0 \<le> viewportTop (viewState (stateRef (compileResolved samplePaging 0 smallQV lateW))) \<and>
   viewportTop (viewState (stateRef (compileResolved samplePaging 0 smallQV lateW)))
     \<le> viewportBottom (viewState (stateRef (compileResolved samplePaging 0 smallQV lateW))) \<and>
   viewportBottom (viewState (stateRef (compileResolved samplePaging 0 smallQV lateW))) \<le> qv_rowCount smallQV \<and>
   fetchesIssued lateW = 0 \<and>
   fetchesIssued (compileResolved samplePaging 0 smallQV lateW) = 2"
proof -
  have a: "0 \<le> qv_rowCount smallQV"
    by (simp add: smallQV_def)
  have b: "queryRequests lateW 0 = Some (Some sampleV1)"
    by code_simp
  have c: "viewportTop (viewState (stateRef lateW)) = 50"
          "viewportBottom (viewState (stateRef lateW)) = 70"
    by code_simp+
  have d: "clampViewport samplePaging (qv_rowCount smallQV) 50 70 = (0, 10)"
    by (simp add: samplePaging_def smallQV_def)
  have f: "fetchesIssued lateW = 0"
          "fetchesIssued (compileResolved samplePaging 0 smallQV lateW) = 2"
    by code_simp+
  from compileResolved_clamps[OF samplePaging_contract a b] c d f show ?thesis
    by simp
qed

text \<open>
  Claim C6 (leaf flag), as amended. The leaf flag of every row of a fetched window is true
  exactly when the row's depth exceeds the number of pivots of the view parameters that
  \<^verbatim>\<open>mkDataView\<close> is given; these are the view parameters that \<open>requestData\<close> reads from
  the shared state when it issues the fetch, and the data view of a resolving fetch is
  built from them. They need not be the view parameters that the query view was compiled
  from: in the race of the counterexample a query view compiled without pivots is fetched
  under view parameters with two pivots.
\<close>

theorem leaf_flag:
  "(\<forall>a\<in>set (td_rowData td).
      r_isLeaf (fst (mkDataView vp rc off td h) a)
        = Some (int (length (vpivots vp)) < r_depth (fst (mkDataView vp rc off td h) a))) \<and>
   (dataRequests w n = Some (vp, qv, off, lim) \<longrightarrow>
      rowStore (fetchResolved n td w) = fst (mkDataView vp (qv_rowCount qv) off td (rowStore w)) \<and>
      dataView (viewState (stateRef (fetchResolved n td w)))
        = Some (snd (mkDataView vp (qv_rowCount qv) off td (rowStore w)))) \<and>
   dataRequests (snd (requestData pg q w)) (nextRequest w)
     = Some (viewParams (viewState (stateRef w)), q,
             fetchParams pg (viewportTop (viewState (stateRef w))) (viewportBottom (viewState (stateRef w))))"
proof (intro conjI ballI impI)
  fix a assume a: "a \<in> set (td_rowData td)"
  have d: "r_depth (fst (mkDataView vp rc off td h) a) = r_depth (h a)"
    using loop_frame[of vp "td_rowData td" "length (td_rowData td)" h a]
    by (simp add: mkDataView_heap)
  show "r_isLeaf (fst (mkDataView vp rc off td h) a)
        = Some (int (length (vpivots vp)) < r_depth (fst (mkDataView vp rc off td h) a))"
    unfolding d
    using a loop_flags[of a "length (td_rowData td)" "td_rowData td" vp h]
    by (simp add: mkDataView_heap)
next
  assume r: "dataRequests w n = Some (vp, qv, off, lim)"
  show "rowStore (fetchResolved n td w) = fst (mkDataView vp (qv_rowCount qv) off td (rowStore w))"
    by (simp add: fetchResolved_Some[OF r] requestData_then_simps requestDataView_def)
  show "dataView (viewState (stateRef (fetchResolved n td w)))
        = Some (snd (mkDataView vp (qv_rowCount qv) off td (rowStore w)))"
    by (simp add: fetchResolved_Some[OF r] requestData_then_simps requestDataView_def)
next
  show "dataRequests (snd (requestData pg q w)) (nextRequest w)
     = Some (viewParams (viewState (stateRef w)), q,
             fetchParams pg (viewportTop (viewState (stateRef w))) (viewportBottom (viewState (stateRef w))))"
    by (simp add: requestData_dataRequests)
qed

theorem leaf_flag_witness:
  "r_isLeaf (fst (mkDataView sampleV1 50 0 sampleTable sampleHeap) 1) = Some True \<and>
   r_isLeaf (fst (mkDataView sampleV1 50 0 sampleTable sampleHeap) 0) = Some False \<and>
   rowStore (fetchResolved 1 sampleTable twoW)
     = fst (mkDataView sampleV1 (qv_rowCount sampleQV) 0 sampleTable (rowStore twoW))"
proof -
  have m: "0 \<in> set (td_rowData sampleTable)" "1 \<in> set (td_rowData sampleTable)"
    by (simp_all add: sampleTable_def)
  have d: "r_depth (fst (mkDataView sampleV1 50 0 sampleTable sampleHeap) 0) = 1"
          "r_depth (fst (mkDataView sampleV1 50 0 sampleTable sampleHeap) 1) = 2"
    by code_simp+
  have v: "length (vpivots sampleV1) = 1"
    by (simp add: sampleV1_def)
  note t = leaf_flag[where td = sampleTable and vp = sampleV1 and rc = 50 and off = 0 and h = sampleHeap
      and w = twoW and n = 1 and qv = sampleQV and lim = 20 and pg = samplePaging and q = sampleQV]
  from t m d v have "r_isLeaf (fst (mkDataView sampleV1 50 0 sampleTable sampleHeap) 1) = Some True"
    by simp
  moreover from t m d v have "r_isLeaf (fst (mkDataView sampleV1 50 0 sampleTable sampleHeap) 0) = Some False"
    by simp
  moreover from t twoW_dataRequests(1) have "rowStore (fetchResolved 1 sampleTable twoW)
     = fst (mkDataView sampleV1 (qv_rowCount sampleQV) 0 sampleTable (rowStore twoW))"
    by blast
  ultimately show ?thesis by blast
qed

theorem leaf_flag_counterexample:
  "queryRequests raceW1 0 = Some (Some sampleV0) \<and>
   vpivots sampleV0 = [] \<and>
   dataRequests raceW2 2 = Some (sampleV2, sampleQV, 0, 20) \<and>
   map_option pdv_rowData (dataView (viewState (stateRef raceW3))) = Some [8, 9] \<and>
   r_depth (rowStore raceW3 8) = 1 \<and>
   r_isLeaf (rowStore raceW3 8) = Some False \<and>
   r_isLeaf (rowStore raceW3 8)
     \<noteq> Some (int (length (vpivots sampleV0)) < r_depth (rowStore raceW3 8))"
  by code_simp

text \<open>
  Claim C7 (a new compile on a new identity). \<open>onStateChange\<close> issues a compile request
  exactly when the view parameters of the state are not the object last observed
  (\<^verbatim>\<open>null\<close> at first; two objects differ as soon as their identities differ, whatever
  their contents); it issues one, for the new view parameters, and the requester's
  \<^verbatim>\<open>pendingViewParams\<close> already holds them at the moment of the request.
\<close>

theorem onStateChange_compile:
  "(differs (viewParams (viewState (stateRef w))) (pendingViewParams (requester w)) \<longrightarrow>
      compilesIssued (onStateChange pg w) = Suc (compilesIssued w) \<and>
      effects (onStateChange pg w) =
           effects w @
             [CompileIssued (nextRequest w) (Some (viewParams (viewState (stateRef w))))
                ((requester w)\<lparr>pendingViewParams := Some (viewParams (viewState (stateRef w)))\<rparr>),
              StateWritten (stateRef (onStateChange pg w))] \<and>
      pendingViewParams (requester (onStateChange pg w)) = Some (viewParams (viewState (stateRef w))) \<and>
      queryRequests (onStateChange pg w) (nextRequest w) = Some (Some (viewParams (viewState (stateRef w))))) \<and>
   (\<not> differs (viewParams (viewState (stateRef w))) (pendingViewParams (requester w)) \<longrightarrow>
      compilesIssued (onStateChange pg w) = compilesIssued w \<and>
      queryRequests (onStateChange pg w) = queryRequests w \<and>
      pendingViewParams (requester (onStateChange pg w)) = pendingViewParams (requester w)) \<and>
   differs vp None \<and>
   differs vp (Some vp') = (vp_id vp \<noteq> vp_id vp')"
proof (intro conjI impI)
  assume d: "differs (viewParams (viewState (stateRef w))) (pendingViewParams (requester w))"
  note s = onStateChange_differs[OF d, of pg]
  show "compilesIssued (onStateChange pg w) = Suc (compilesIssued w)"
    by (simp add: compilesIssued_def s(1))
  show "effects (onStateChange pg w) =
           effects w @
             [CompileIssued (nextRequest w) (Some (viewParams (viewState (stateRef w))))
                ((requester w)\<lparr>pendingViewParams := Some (viewParams (viewState (stateRef w)))\<rparr>),
              StateWritten (stateRef (onStateChange pg w))]"
    by (simp add: s(1) s(5))
  show "pendingViewParams (requester (onStateChange pg w)) = Some (viewParams (viewState (stateRef w)))"
    by (simp add: s(2))
  show "queryRequests (onStateChange pg w) (nextRequest w) = Some (Some (viewParams (viewState (stateRef w))))"
    by (simp add: s(3))
next
  assume d: "\<not> differs (viewParams (viewState (stateRef w))) (pendingViewParams (requester w))"
  note s = onStateChange_same[OF d, of pg]
  show "compilesIssued (onStateChange pg w) = compilesIssued w"
    by (simp add: s compilesIssued_def requestData_effects split: option.splits)
  show "queryRequests (onStateChange pg w) = queryRequests w"
    by (simp add: s requestData_queryRequests split: option.splits)
  show "pendingViewParams (requester (onStateChange pg w)) = pendingViewParams (requester w)"
    by (simp add: s requestData_requester split: option.splits)
next
  show "differs vp None" by (simp add: differs_def)
  show "differs vp (Some vp') = (vp_id vp \<noteq> vp_id vp')" by (simp add: differs_def)
qed

theorem onStateChange_compile_witness:
  "vpivots sampleV1copy = vpivots sampleV1 \<and> openPaths sampleV1copy = openPaths sampleV1 \<and>
   compilesIssued (onStateChange samplePaging (readyW\<lparr>stateRef := withViewParams sampleV1copy (stateRef readyW)\<rparr>))
     = Suc (compilesIssued (readyW\<lparr>stateRef := withViewParams sampleV1copy (stateRef readyW)\<rparr>)) \<and>
   compilesIssued (onStateChange samplePaging readyW) = compilesIssued readyW"
proof -
  have a: "\<not> differs (viewParams (viewState (stateRef readyW))) (pendingViewParams (requester readyW))"
    by (simp add: readyW_requester readyW_state differs_def)
  have b: "differs (viewParams (viewState (stateRef (readyW\<lparr>stateRef := withViewParams sampleV1copy (stateRef readyW)\<rparr>))))
             (pendingViewParams (requester (readyW\<lparr>stateRef := withViewParams sampleV1copy (stateRef readyW)\<rparr>)))"
    by (simp add: readyW_requester withViewParams_def differs_def sampleV1_def sampleV1copy_def)
  have c: "vpivots sampleV1copy = vpivots sampleV1 \<and> openPaths sampleV1copy = openPaths sampleV1"
    by (simp add: sampleV1_def sampleV1copy_def)
  from onStateChange_compile[of readyW samplePaging] a
       onStateChange_compile[of "readyW\<lparr>stateRef := withViewParams sampleV1copy (stateRef readyW)\<rparr>" samplePaging] b c
  show ?thesis by blast
qed

end
